theory Spec2Isabelle
  imports Main "HOL-Library.Word"
begin

unbundle bit_operations_syntax

section \<open>Values shared by the whole package\<close>

type_synonym byte = "8 word"

text \<open>
  Go's \<open>error\<close> is an interface; the model closes it to the error kinds the package and its
  specification name, the \<open>CorruptInputError\<close> of \<open>encoding/base64\<close> (it carries the
  offset of the offending input byte), a panic on a nil interface value, and \<open>OtherError\<close>
  for whatever a caller-supplied callback or the JSON library returns.
\<close>

datatype error =
    CorruptInputError nat
  | MalformedTokenError
  | UnverifiableError "error option"
  | SignatureInvalidError
  | KeyTypeError
  | ClaimsInvalidError "string list"
  | SignError
  | NilPointerPanic
  | OtherError string

text \<open>The values an \<open>interface{}\<close> holds after JSON decoding.\<close>

datatype json =
    JNull
  | JBool bool
  | JNumber int
  | JString string
  | JArray "json list"
  | JObject "(string \<times> json) list"

text \<open>
  The two package-level variables of \<open>token.go\<close>. \<open>TimeFunc\<close> is read as the number of
  seconds since the epoch that a call of it returns.
\<close>

record globals =
  DecodePaddingAllowed :: bool
  TimeFunc :: int

section \<open>The base64 codec of the Go standard library\<close>

text \<open>
  \<open>EncodeSegment\<close> and \<open>DecodeSegment\<close> delegate to \<open>encoding/base64\<close>. Its
  \<open>Encoding\<close> value holds the 64-character alphabet, the padding character
  (\<open>NoPadding\<close> is \<open>None\<close>) and the strictness flag; \<open>decodeMap\<close> is the 256-entry
  table that \<open>NewEncoding\<close> fills with \<open>0xFF\<close> and then overwrites at each alphabet
  character with its index.
\<close>

record Encoding =
  encode :: string
  padChar :: "char option"
  strict :: bool

definition encodeURL :: string where
  "encodeURL = ''ABCDEFGHIJKLMNOPQRSTUVWXYZabcdefghijklmnopqrstuvwxyz0123456789-_''"

definition URLEncoding :: Encoding where
  "URLEncoding = \<lparr>encode = encodeURL, padChar = Some (CHR ''=''), strict = False\<rparr>"

definition RawURLEncoding :: Encoding where
  "RawURLEncoding = URLEncoding\<lparr>padChar := None\<rparr>"

definition decodeMap :: "Encoding \<Rightarrow> char \<Rightarrow> byte" where
  "decodeMap enc =
     fold (\<lambda>(i, c) m. m(c := of_nat i)) (enumerate 0 (encode enc)) (\<lambda>_. 0xFF)"

definition encode_at :: "Encoding \<Rightarrow> 64 word \<Rightarrow> char" where
  "encode_at enc v = encode enc ! unat v"

text \<open>
  \<open>Encode\<close>: three source bytes become four characters; a remainder of one or two bytes
  becomes two or three characters, followed by padding only when the encoding has a
  padding character. \<open>val\<close> is a Go \<open>uint\<close>, 64 bits wide.
\<close>

fun Encode :: "Encoding \<Rightarrow> byte list \<Rightarrow> string" where
  "Encode enc [] = []"
| "Encode enc [s0] =
     (let val = push_bit 16 (ucast s0 :: 64 word)
      in [encode_at enc (drop_bit 18 val AND 0x3F), encode_at enc (drop_bit 12 val AND 0x3F)]
         @ (case padChar enc of None \<Rightarrow> [] | Some p \<Rightarrow> [p, p]))"
| "Encode enc [s0, s1] =
     (let val = push_bit 16 (ucast s0 :: 64 word) OR push_bit 8 (ucast s1)
      in [encode_at enc (drop_bit 18 val AND 0x3F), encode_at enc (drop_bit 12 val AND 0x3F),
          encode_at enc (drop_bit 6 val AND 0x3F)]
         @ (case padChar enc of None \<Rightarrow> [] | Some p \<Rightarrow> [p]))"
| "Encode enc (s0 # s1 # s2 # src) =
     (let val = push_bit 16 (ucast s0 :: 64 word) OR push_bit 8 (ucast s1) OR ucast s2
      in [encode_at enc (drop_bit 18 val AND 0x3F), encode_at enc (drop_bit 12 val AND 0x3F),
          encode_at enc (drop_bit 6 val AND 0x3F), encode_at enc (val AND 0x3F)]
         @ Encode enc src)"

definition EncodeToString :: "Encoding \<Rightarrow> byte list \<Rightarrow> string" where
  "EncodeToString enc src = Encode enc src"

text \<open>
  \<open>decodeQuantum\<close> reads up to four alphabet characters into \<open>dbuf\<close>, skipping
  line feeds and carriage returns. Its character loop either returns from the function at once
  (\<open>Return nsi err\<close>) or is left with \<open>dbuf\<close>, \<open>dlen\<close>, the new input position, the
  unread input and a pending trailing-garbage error (\<open>Break\<close>). The input is passed as
  the unread suffix \<open>src[si:]\<close> together with \<open>si\<close>.
\<close>

datatype loop_exit =
    Return nat "error option"
  | Break "byte list" nat nat string "error option"

definition is_newline :: "char \<Rightarrow> bool" where
  "is_newline c \<longleftrightarrow> c = CHR 0x0A \<or> c = CHR 0x0D"

fun decodeQuantum_loop :: "Encoding \<Rightarrow> nat \<Rightarrow> byte list \<Rightarrow> nat \<Rightarrow> string \<Rightarrow> loop_exit" where
  "decodeQuantum_loop enc j dbuf si [] =
     (if 4 \<le> j then Break dbuf 4 si [] None
      else if j = 0 then Return si None
      else if j = 1 \<or> padChar enc \<noteq> None then Return si (Some (CorruptInputError (si - j)))
      else Break dbuf j si [] None)"
| "decodeQuantum_loop enc j dbuf si (c # src) =
     (if 4 \<le> j then Break dbuf 4 si (c # src) None
      else
        let si = si + 1; out = decodeMap enc c in
        if out \<noteq> 0xFF then decodeQuantum_loop enc (j + 1) (dbuf[j := out]) si src
        else if is_newline c then decodeQuantum_loop enc j dbuf si src
        else if Some c \<noteq> padChar enc then Return si (Some (CorruptInputError (si - 1)))
        else if j = 0 \<or> j = 1 then Return si (Some (CorruptInputError (si - 1)))
        else if j = 2 then
          (let src1 = dropWhile is_newline src;
               si1 = si + (length src - length src1) in
           case src1 of
             [] \<Rightarrow> Return si1 (Some (CorruptInputError si1))
           | c1 # src2 \<Rightarrow>
               if Some c1 \<noteq> padChar enc then Return si1 (Some (CorruptInputError (si1 - 1)))
               else
                 let si2 = si1 + 1;
                     src3 = dropWhile is_newline src2;
                     si3 = si2 + (length src2 - length src3) in
                 Break dbuf j si3 src3
                   (if src3 \<noteq> [] then Some (CorruptInputError si3) else None))
        else
          (let src3 = dropWhile is_newline src;
               si3 = si + (length src - length src3) in
           Break dbuf j si3 src3
             (if src3 \<noteq> [] then Some (CorruptInputError si3) else None)))"

text \<open>
  After the loop the four sextets are packed into 24 bits and \<open>dlen - 1\<close> bytes are written.
  The result is the new position, the unread input, the bytes counted as written and the
  error.
\<close>

definition decodeQuantum :: "Encoding \<Rightarrow> nat \<Rightarrow> string \<Rightarrow> nat \<times> string \<times> byte list \<times> error option" where
  "decodeQuantum enc si src =
     (case decodeQuantum_loop enc 0 [0, 0, 0, 0] si src of
        Return nsi err \<Rightarrow> (nsi, [], [], err)
      | Break dbuf dlen nsi rest err \<Rightarrow>
          let val = push_bit 18 (ucast (dbuf ! 0) :: 64 word) OR push_bit 12 (ucast (dbuf ! 1))
                      OR push_bit 6 (ucast (dbuf ! 2)) OR ucast (dbuf ! 3);
              b2 = (ucast val :: byte);
              b1 = (ucast (drop_bit 8 val) :: byte);
              b0 = (ucast (drop_bit 16 val) :: byte)
          in if dlen = 4 then (nsi, rest, [b0, b1, b2], err)
             else if dlen = 3 then
               (if strict enc \<and> b2 \<noteq> 0 then (nsi, rest, [], Some (CorruptInputError (nsi - 1)))
                else (nsi, rest, [b0, b1], err))
             else
               (if strict enc \<and> (b1 \<noteq> 0 \<or> b2 \<noteq> 0)
                then (nsi, rest, [], Some (CorruptInputError (nsi - 2)))
                else (nsi, rest, [b0], err)))"

text \<open>
  \<open>Decode\<close> calls \<open>decodeQuantum\<close> until the input is used up or an error comes back; the
  bytes decoded so far are returned with the error. (The library's eight- and
  four-character fast paths decode exactly the groups of valid characters that
  \<open>decodeQuantum\<close> decodes, to the same bytes, and fall back to it otherwise.) Every
  quantum consumes at least one character, which is the termination argument.
\<close>

function Decode :: "Encoding \<Rightarrow> nat \<Rightarrow> string \<Rightarrow> byte list \<times> error option" where
  "Decode enc si src =
     (if src = [] then ([], None)
      else case decodeQuantum enc si src of
        (nsi, rest, out, err) \<Rightarrow>
          if err \<noteq> None then (out, err)
          else case Decode enc nsi rest of (out', err') \<Rightarrow> (out @ out', err'))"
  by pat_completeness auto
termination
proof (relation "measure (\<lambda>(enc, si, src). length src)")
  show "wf (measure (\<lambda>(enc, si, src). length src))" by simp
next
  fix enc :: Encoding and si nsi :: nat and src rest :: string
    and y :: "string \<times> byte list \<times> error option"
    and out :: "byte list" and z :: "byte list \<times> error option" and err :: "error option"
  assume ne: "src \<noteq> []"
    and q: "(nsi, y) = decodeQuantum enc si src" "(rest, z) = y" "(out, err) = z"
    and "\<not> err \<noteq> None"
  have drop_le: "length (dropWhile is_newline s) \<le> length s" for s :: string
    by (induction s) auto
  have loop: "decodeQuantum_loop enc j dbuf k s = Break d l n r e \<Longrightarrow> length r \<le> length s"
    for j dbuf k s d l n r e
  proof (induction enc j dbuf k s rule: decodeQuantum_loop.induct)
    case (1 enc j dbuf si)
    then show ?case by (auto split: if_splits)
  next
    case (2 enc j dbuf si c src)
    have d1: "length (dropWhile is_newline src) \<le> length src" by (rule drop_le)
    show ?case
    proof (cases "4 \<le> j")
      case True
      with 2(3) show ?thesis by auto
    next
      case False
      note nj = this
      show ?thesis
      proof (cases "decodeMap enc c \<noteq> 0xFF")
        case True
        from 2(3) nj True
        have "decodeQuantum_loop enc (j + 1) (dbuf[j := decodeMap enc c]) (si + 1) src = Break d l n r e"
          by (simp add: Let_def)
        from 2(1)[OF nj refl refl True this] show ?thesis by simp
      next
        case False
        note inv = this
        show ?thesis
        proof (cases "is_newline c")
          case True
          from 2(3) nj inv True
          have "decodeQuantum_loop enc j dbuf (si + 1) src = Break d l n r e"
            by (simp add: Let_def)
          from 2(2)[OF nj refl refl inv True this] show ?thesis by simp
        next
          case False
          have d2: "length (dropWhile is_newline t) \<le> length src"
            if "dropWhile is_newline src = u # t" for u t
          proof -
            have "length (dropWhile is_newline t) \<le> length t" by (rule drop_le)
            moreover have "length t < length (dropWhile is_newline src)" using that by simp
            ultimately show ?thesis using d1 by linarith
          qed
          from 2(3) nj inv False d1 d2 show ?thesis
            by (auto simp: Let_def split: if_splits list.splits)
        qed
      qed
    qed
  qed
  have "length rest < length src"
  proof (cases "decodeQuantum_loop enc 0 [0, 0, 0, 0] si src")
    case (Return a b)
    with q ne show ?thesis by (auto simp: decodeQuantum_def dest!: sym[of "(nsi, y)"])
  next
    case (Break d l n r e)
    obtain c cs where src: "src = c # cs" using ne by (cases src) auto
    have rest: "rest = r" using q Break
      by (auto simp: decodeQuantum_def Let_def split: if_splits dest!: sym[of "(nsi, y)"])
    have "length r \<le> length cs"
    proof (cases "decodeMap enc c \<noteq> 0xFF")
      case True
      with Break src
      have "decodeQuantum_loop enc 1 ([0, 0, 0, 0][0 := decodeMap enc c]) (si + 1) cs = Break d l n r e"
        by (simp add: Let_def)
      then show ?thesis by (rule loop)
    next
      case False
      with Break src
      have "decodeQuantum_loop enc 0 [0, 0, 0, 0] (si + 1) cs = Break d l n r e"
        by (simp add: Let_def split: if_splits)
      then show ?thesis by (rule loop)
    qed
    with rest src show ?thesis by simp
  qed
  then show "((enc, nsi, rest), enc, si, src) \<in> measure (\<lambda>(enc, si, src). length src)"
    by simp
qed

declare Decode.simps [simp del]

definition DecodeString :: "Encoding \<Rightarrow> string \<Rightarrow> byte list \<times> error option" where
  "DecodeString enc s = Decode enc 0 s"

section \<open>token.go\<close>

text \<open>
  \<open>SigningMethod\<close> and \<open>Claims\<close> are interfaces declared elsewhere in the package. A
  signing method is the record of its three methods. A \<open>Claims\<close> value is either the
  package's \<open>MapClaims\<close> or some other implementation, which is its data together with
  its \<open>Valid\<close> method (a function of the data and the current time). In a \<open>Token\<close>
  the \<open>Method\<close> interface value can be nil (\<open>None\<close>); string fields start empty and
  \<open>Valid\<close> starts false, Go's zero values.
\<close>

record 'k SigningMethod =
  Alg :: string
  Sign :: "string \<Rightarrow> 'k \<Rightarrow> error + string"
  Verify :: "string \<Rightarrow> byte list \<Rightarrow> 'k \<Rightarrow> error option"

datatype 'x Claims =
    MapClaims "string \<rightharpoonup> json"
  | CustomClaims 'x "'x \<Rightarrow> int \<Rightarrow> error option"

record ('k, 'x) Token =
  Raw :: string
  Method :: "'k SigningMethod option"
  Header :: "string \<rightharpoonup> json"
  Claims :: "'x Claims"
  Signature :: string
  Valid :: bool

type_synonym ('k, 'x) Keyfunc = "('k, 'x) Token \<Rightarrow> error + 'k"

text \<open>
  \<open>encoding/json\<close> is a parameter of the model: how a string-keyed map (the header, or
  \<open>MapClaims\<close>) and how any other claims value is serialised and read back. The flag of
  the two readers is the decoder's \<open>UseNumber\<close> setting.
\<close>

record 'x json_lib =
  Marshal_map :: "(string \<rightharpoonup> json) \<Rightarrow> error + byte list"
  Marshal_custom :: "'x \<Rightarrow> error + byte list"
  Unmarshal_map :: "bool \<Rightarrow> byte list \<Rightarrow> error + (string \<rightharpoonup> json)"
  Unmarshal_custom :: "bool \<Rightarrow> byte list \<Rightarrow> 'x \<Rightarrow> error + 'x"

definition json_Marshal_claims :: "'x json_lib \<Rightarrow> 'x Claims \<Rightarrow> error + byte list" where
  "json_Marshal_claims js c =
     (case c of MapClaims m \<Rightarrow> Marshal_map js m | CustomClaims x v \<Rightarrow> Marshal_custom js x)"

fun strings_Join :: "string list \<Rightarrow> string \<Rightarrow> string" where
  "strings_Join [] sep = []"
| "strings_Join [x] sep = x"
| "strings_Join (x # y # ys) sep = x @ sep @ strings_Join (y # ys) sep"

definition NewWithClaims :: "'k SigningMethod \<Rightarrow> 'x Claims \<Rightarrow> ('k, 'x) Token" where
  "NewWithClaims method cl =
     \<lparr>Raw = [],
      Method = Some method,
      Header = [''typ'' \<mapsto> JString ''JWT'', ''alg'' \<mapsto> JString (Alg method)],
      Claims = cl,
      Signature = [],
      Valid = False\<rparr>"

definition New :: "'k SigningMethod \<Rightarrow> ('k, 'x) Token" where
  "New method = NewWithClaims method (MapClaims Map.empty)"

definition EncodeSegment :: "byte list \<Rightarrow> string" where
  "EncodeSegment seg = EncodeToString RawURLEncoding seg"

definition DecodeSegment :: "globals \<Rightarrow> string \<Rightarrow> byte list \<times> error option" where
  "DecodeSegment g seg =
     (if DecodePaddingAllowed g then
        (let l = length seg mod 4;
             seg = (if l > 0 then seg @ replicate (4 - l) (CHR ''='') else seg)
         in DecodeString URLEncoding seg)
      else DecodeString RawURLEncoding seg)"

text \<open>
  \<open>SigningString\<close> and \<open>SignedString\<close> have the pointer receiver \<open>t\<close>: each returns its
  result together with the token as it is after the call. A nil \<open>t.Method\<close> makes
  \<open>t.Method.Sign\<close> panic.
\<close>

definition SigningString :: "'x json_lib \<Rightarrow> ('k, 'x) Token \<Rightarrow> (error + string) \<times> ('k, 'x) Token" where
  "SigningString js t =
     (case Marshal_map js (Header t) of
        Inl err \<Rightarrow> (Inl err, t)
      | Inr jsonValue \<Rightarrow>
          let header = EncodeSegment jsonValue in
          case json_Marshal_claims js (Claims t) of
            Inl err \<Rightarrow> (Inl err, t)
          | Inr jsonValue \<Rightarrow>
              let claim = EncodeSegment jsonValue in
              (Inr (strings_Join [header, claim] ''.''), t))"

definition SignedString :: "'x json_lib \<Rightarrow> ('k, 'x) Token \<Rightarrow> 'k \<Rightarrow> (error + string) \<times> ('k, 'x) Token" where
  "SignedString js t key =
     (case SigningString js t of
        (Inl err, t) \<Rightarrow> (Inl err, t)
      | (Inr sstr, t) \<Rightarrow>
          (case Method t of
             None \<Rightarrow> (Inl NilPointerPanic, t)
           | Some method \<Rightarrow>
               (case Sign method sstr key of
                  Inl err \<Rightarrow> (Inl err, t)
                | Inr sig \<Rightarrow> (Inr (strings_Join [sstr, sig] ''.''), t))))"

section \<open>Parser options\<close>

text \<open>
  The options set fields of \<open>Parser\<close>; the struct itself is declared in a file of the
  package that is not at hand, so the record has the three fields the options assign. A Go
  slice can be nil: \<open>ValidMethods\<close> is \<open>None\<close> for the nil slice.
\<close>

record Parser =
  ValidMethods :: "string list option"
  UseJSONNumber :: bool
  SkipClaimsValidation :: bool

type_synonym ParserOption = "Parser \<Rightarrow> Parser"

definition WithValidMethods :: "string list option \<Rightarrow> ParserOption" where
  "WithValidMethods methods = (\<lambda>p. p\<lparr>ValidMethods := methods\<rparr>)"

definition WithJSONNumber :: ParserOption where
  "WithJSONNumber = (\<lambda>p. p\<lparr>UseJSONNumber := True\<rparr>)"

definition WithoutClaimsValidation :: ParserOption where
  "WithoutClaimsValidation = (\<lambda>p. p\<lparr>SkipClaimsValidation := True\<rparr>)"

section \<open>The parser\<close>

text \<open>
  Modelled from the spec: a numeric claim field of section 4.3 read from a \<open>MapClaims\<close>
  (the methods of \<open>MapClaims\<close> are in a file of the package that is not at hand). An
  absent field, or one that is not a number, is \<open>None\<close>.
\<close>

definition numeric_claim :: "(string \<rightharpoonup> json) \<Rightarrow> string \<Rightarrow> int option" where
  "numeric_claim m name = (case m name of Some (JNumber n) \<Rightarrow> Some n | _ \<Rightarrow> None)"

text \<open>
  Modelled from the spec: the three time rules of section 4.3 on a \<open>MapClaims\<close> (its
  validation is in a file of the package that is not at hand): expired when
  \<open>exp < now - leeway\<close>, not yet valid when \<open>nbf > now + leeway\<close>, issued in the future
  when \<open>iat > now + leeway\<close>. A rule applies only when its claim is present, and all
  violations are collected.
\<close>

definition MapClaims_violations :: "(string \<rightharpoonup> json) \<Rightarrow> int \<Rightarrow> int \<Rightarrow> string list" where
  "MapClaims_violations m now leeway =
     (case numeric_claim m ''exp'' of
        Some e \<Rightarrow> if e < now - leeway then [''token is expired''] else []
      | None \<Rightarrow> [])
     @ (case numeric_claim m ''nbf'' of
          Some n \<Rightarrow> if n > now + leeway then [''token is not valid yet''] else []
        | None \<Rightarrow> [])
     @ (case numeric_claim m ''iat'' of
          Some i \<Rightarrow> if i > now + leeway then [''token used before issued''] else []
        | None \<Rightarrow> [])"

text \<open>
  Modelled from the spec: \<open>MapClaims.Valid\<close> (in a file of the package that is not at
  hand), the validation of section 4.3 at zero leeway: it fails with
  \<open>ClaimsInvalidError\<close>, listing every violated rule.
\<close>

definition MapClaims_Valid :: "(string \<rightharpoonup> json) \<Rightarrow> int \<Rightarrow> error option" where
  "MapClaims_Valid m now =
     (let vs = MapClaims_violations m now 0
      in if vs = [] then None else Some (ClaimsInvalidError vs))"

text \<open>
  Modelled from the spec: the validation capability of the \<open>Claims\<close> interface (declared
  in a file of the package that is not at hand), dispatched on the implementation.
\<close>

definition Claims_Valid :: "'x Claims \<Rightarrow> int \<Rightarrow> error option" where
  "Claims_Valid c now =
     (case c of MapClaims m \<Rightarrow> MapClaims_Valid m now | CustomClaims x v \<Rightarrow> v x now)"

text \<open>
  Modelled from the spec: the dot-separated segments of a token text (the splitting is done
  by the parser, in a file of the package that is not at hand). A text with \<open>n\<close>
  separators has \<open>n + 1\<close> segments, empty ones included.
\<close>

fun split_on :: "char \<Rightarrow> string \<Rightarrow> string list" where
  "split_on sep [] = [[]]"
| "split_on sep (c # cs) =
     (if c = sep then [] # split_on sep cs
      else case split_on sep cs of
             [] \<Rightarrow> [[c]]
           | seg # segs \<Rightarrow> (c # seg) # segs)"

text \<open>
  Modelled from the spec: \<open>Codec.decode\<close> of section 4.1 (the segment handling of the
  parser, in a file of the package that is not at hand). The text must have exactly three
  dot-separated segments, and each is decoded with \<open>DecodeSegment\<close>; the signing input
  is the text before the last dot. Any failure is a \<open>MalformedTokenError\<close>.
\<close>

definition Codec_decode :: "globals \<Rightarrow> string \<Rightarrow> error + (byte list \<times> byte list \<times> byte list \<times> string)" where
  "Codec_decode g text =
     (case split_on (CHR ''.'') text of
        [h, c, s] \<Rightarrow>
          (case (DecodeSegment g h, DecodeSegment g c, DecodeSegment g s) of
             ((headerBytes, None), (payloadBytes, None), (signatureBytes, None)) \<Rightarrow>
               Inr (headerBytes, payloadBytes, signatureBytes, strings_Join [h, c] ''.'')
           | _ \<Rightarrow> Inl MalformedTokenError)
      | _ \<Rightarrow> Inl MalformedTokenError)"

text \<open>
  What a parse depends on besides its arguments: the package variables, the JSON library
  and the registry that maps an algorithm identifier to a signing method.
\<close>

record ('k, 'x) env =
  vars :: globals
  json :: "'x json_lib"
  GetSigningMethod :: "string \<Rightarrow> 'k SigningMethod option"

text \<open>
  Modelled from the spec: transition 3 of section 4.4 (in a file of the package that is not
  at hand), reading the payload into the claims shape the caller supplied. Entries read
  into a \<open>MapClaims\<close> are added to the entries it has.
\<close>

definition json_Unmarshal_claims :: "'x json_lib \<Rightarrow> bool \<Rightarrow> byte list \<Rightarrow> 'x Claims \<Rightarrow> error + 'x Claims" where
  "json_Unmarshal_claims js useNumber bs c =
     (case c of
        MapClaims m \<Rightarrow>
          (case Unmarshal_map js useNumber bs of
             Inl err \<Rightarrow> Inl err
           | Inr m' \<Rightarrow> Inr (MapClaims (m ++ m')))
      | CustomClaims x v \<Rightarrow>
          (case Unmarshal_custom js useNumber bs x of
             Inl err \<Rightarrow> Inl err
           | Inr x' \<Rightarrow> Inr (CustomClaims x' v)))"

text \<open>The calls of caller-supplied code that a parse makes, in order.\<close>

datatype call = ExtractToken_call | ParseWithClaims_call | Keyfunc_call

text \<open>
  Modelled from the spec: \<open>Parser.ParseWithClaims\<close> (in a file of the package that is not
  at hand), the state machine of section 4.4, one \<open>case\<close> per transition. The result is
  the token (absent until header and claims are parsed, and marked valid only in the
  terminal state), the error, and the calls of the key resolver made on the way. An
  \<open>alg\<close> that is missing from the header or is not a string cannot be resolved to a
  method. \<open>Signature\<close> is set, once the signature has been authenticated, to the
  signature segment as its bytes encode.
\<close>

definition Parser_ParseWithClaims ::
  "('k, 'x) env \<Rightarrow> Parser \<Rightarrow> string \<Rightarrow> 'x Claims \<Rightarrow> ('k, 'x) Keyfunc
     \<Rightarrow> (('k, 'x) Token option \<times> error option) \<times> call list" where
  "Parser_ParseWithClaims e p tokenString cl keyFunc =
     (case Codec_decode (vars e) tokenString of
        Inl err \<Rightarrow> ((None, Some MalformedTokenError), [])
      | Inr (headerBytes, payloadBytes, signatureBytes, signingInput) \<Rightarrow>
     (case Unmarshal_map (json e) False headerBytes of
        Inl err \<Rightarrow> ((None, Some MalformedTokenError), [])
      | Inr header \<Rightarrow>
     (case json_Unmarshal_claims (json e) (UseJSONNumber p) payloadBytes cl of
        Inl err \<Rightarrow> ((None, Some MalformedTokenError), [])
      | Inr cl' \<Rightarrow>
     (let token = \<lparr>Raw = tokenString, Method = None, Header = header, Claims = cl',
                    Signature = [], Valid = False\<rparr>
      in case header ''alg'' of
        Some (JString alg) \<Rightarrow>
          if (case ValidMethods p of None \<Rightarrow> False | Some allowed \<Rightarrow> alg \<notin> set allowed)
          then ((Some token, Some (UnverifiableError None)), [])
          else
            (case GetSigningMethod e alg of
               None \<Rightarrow> ((Some token, Some (UnverifiableError None)), [])
             | Some method \<Rightarrow>
                 let token = token\<lparr>Method := Some method\<rparr> in
                 (case keyFunc token of
                    Inl err \<Rightarrow> ((Some token, Some (UnverifiableError (Some err))), [Keyfunc_call])
                  | Inr key \<Rightarrow>
                      (case Verify method signingInput signatureBytes key of
                         Some err \<Rightarrow> ((Some token, Some err), [Keyfunc_call])
                       | None \<Rightarrow>
                           let token = token\<lparr>Signature := EncodeSegment signatureBytes\<rparr> in
                           if SkipClaimsValidation p
                           then ((Some (token\<lparr>Valid := True\<rparr>), None), [Keyfunc_call])
                           else
                             (case Claims_Valid cl' (TimeFunc (vars e)) of
                                Some err \<Rightarrow> ((Some token, Some err), [Keyfunc_call])
                              | None \<Rightarrow>
                                  ((Some (token\<lparr>Valid := True\<rparr>), None), [Keyfunc_call])))))
      | _ \<Rightarrow> ((Some token, Some (UnverifiableError None)), [])))))"

text \<open>
  Modelled from the spec: \<open>NewParser\<close> (in a file of the package that is not at hand)
  applies the options, in order, to a parser with no allow-list and both flags off.
\<close>

definition NewParser :: "ParserOption list \<Rightarrow> Parser" where
  "NewParser options =
     fold (\<lambda>option p. option p) options
       \<lparr>ValidMethods = None, UseJSONNumber = False, SkipClaimsValidation = False\<rparr>"

text \<open>
  Modelled from the spec: \<open>Parser.Parse\<close> (in a file of the package that is not at hand),
  the parse into the open mapping of claims, starting from an empty one.
\<close>

definition Parser_Parse ::
  "('k, 'x) env \<Rightarrow> Parser \<Rightarrow> string \<Rightarrow> ('k, 'x) Keyfunc
     \<Rightarrow> (('k, 'x) Token option \<times> error option) \<times> call list" where
  "Parser_Parse e p tokenString keyFunc =
     Parser_ParseWithClaims e p tokenString (MapClaims Map.empty) keyFunc"

text \<open>
  The two package-level entry points of \<open>token.go\<close>: each makes a parser from the options
  and calls its method.
\<close>

definition ParseWithClaims ::
  "('k, 'x) env \<Rightarrow> string \<Rightarrow> 'x Claims \<Rightarrow> ('k, 'x) Keyfunc \<Rightarrow> ParserOption list
     \<Rightarrow> (('k, 'x) Token option \<times> error option) \<times> call list" where
  "ParseWithClaims e tokenString cl keyFunc options =
     Parser_ParseWithClaims e (NewParser options) tokenString cl keyFunc"

definition Parse ::
  "('k, 'x) env \<Rightarrow> string \<Rightarrow> ('k, 'x) Keyfunc \<Rightarrow> ParserOption list
     \<Rightarrow> (('k, 'x) Token option \<times> error option) \<times> call list" where
  "Parse e tokenString keyFunc options =
     Parser_Parse e (NewParser options) tokenString keyFunc"

section \<open>request/request.go\<close>

text \<open>
  An \<open>Extractor\<close> is its \<open>ExtractToken\<close> method. The options are closures over the
  private \<open>fromRequestParser\<close>; they return the struct as they leave it.
  \<open>ParseFromRequest\<close> returns its two results and the calls it has made: the one of
  \<open>ExtractToken\<close>, then, if it gets there, the one of the parser and those the parser
  makes. The \<open>claims\<close> and
  \<open>parser\<close> fields can be nil (\<open>None\<close>) until the defaults are set; after that neither
  is, so the last branch of \<open>ParseFromRequest\<close>, the nil dereference, is never taken.
\<close>

type_synonym 'r Extractor = "'r \<Rightarrow> error + string"

record ('r, 'x) fromRequestParser =
  req :: 'r
  extractor :: "'r Extractor"
  claims :: "'x Claims option"
  parser :: "Parser option"

type_synonym ('r, 'x) ParseFromRequestOption =
  "('r, 'x) fromRequestParser \<Rightarrow> ('r, 'x) fromRequestParser"

definition WithClaims :: "'x Claims option \<Rightarrow> ('r, 'x) ParseFromRequestOption" where
  "WithClaims cl = (\<lambda>p. p\<lparr>claims := cl\<rparr>)"

definition WithParser :: "Parser option \<Rightarrow> ('r, 'x) ParseFromRequestOption" where
  "WithParser prs = (\<lambda>p. p\<lparr>parser := prs\<rparr>)"

definition ParseFromRequest ::
  "('k, 'x) env \<Rightarrow> 'r \<Rightarrow> 'r Extractor \<Rightarrow> ('k, 'x) Keyfunc \<Rightarrow> ('r, 'x) ParseFromRequestOption list
     \<Rightarrow> (('k, 'x) Token option \<times> error option) \<times> call list" where
  "ParseFromRequest e rq ex keyFunc options =
     (let p = \<lparr>req = rq, extractor = ex, claims = None, parser = None\<rparr>;
          p = fold (\<lambda>option p. option p) options p;
          p = (if claims p = None then p\<lparr>claims := Some (MapClaims Map.empty)\<rparr> else p);
          p = (if parser p = None
               then p\<lparr>parser := Some \<lparr>ValidMethods = None, UseJSONNumber = False,
                                        SkipClaimsValidation = False\<rparr>\<rparr>
               else p)
      in case extractor p rq of
           Inl err \<Rightarrow> ((None, Some err), [ExtractToken_call])
         | Inr tokenString \<Rightarrow>
             (case (parser p, claims p) of
                (Some prs, Some cl) \<Rightarrow>
                  (case Parser_ParseWithClaims e prs tokenString cl keyFunc of
                     (res, calls) \<Rightarrow> (res, ExtractToken_call # ParseWithClaims_call # calls))
              | _ \<Rightarrow> ((None, Some NilPointerPanic), [ExtractToken_call])))"

definition ParseFromRequestWithClaims ::
  "('k, 'x) env \<Rightarrow> 'r \<Rightarrow> 'r Extractor \<Rightarrow> 'x Claims option \<Rightarrow> ('k, 'x) Keyfunc
     \<Rightarrow> (('k, 'x) Token option \<times> error option) \<times> call list" where
  "ParseFromRequestWithClaims e rq ex cl keyFunc =
     ParseFromRequest e rq ex keyFunc [WithClaims cl]"

section \<open>Shapes of segments\<close>

text \<open>
  A segment is valid unpadded base64url when all its characters are in the URL alphabet
  and its length is not 1 modulo 4. It is valid base64url with trailing padding when it is
  such a body of length 2 or 3 modulo 4 followed by the \<open>=\<close> characters that fill the last
  group of four.
\<close>

definition is_unpadded_base64url :: "string \<Rightarrow> bool" where
  "is_unpadded_base64url s \<longleftrightarrow> list_all (\<lambda>c. c \<in> set encodeURL) s \<and> length s mod 4 \<noteq> 1"

definition is_padded_base64url :: "string \<Rightarrow> bool" where
  "is_padded_base64url s \<longleftrightarrow>
     (let body = takeWhile (\<lambda>c. c \<noteq> CHR ''='') s;
          pad = dropWhile (\<lambda>c. c \<noteq> CHR ''='') s
      in list_all (\<lambda>c. c \<in> set encodeURL) body
         \<and> (length body mod 4 = 2 \<and> pad = ''==''
            \<or> length body mod 4 = 3 \<and> pad = ''=''))"

section \<open>Auxiliary notions for the codec\<close>

text \<open>
  Names for the word expressions of \<open>Encode\<close> and \<open>decodeQuantum\<close>: the 24-bit value
  of three source bytes, the character of the sextet at a bit offset, the 24-bit value of
  four decoded sextets, and its three bytes.
\<close>

definition triple_value :: "byte \<Rightarrow> byte \<Rightarrow> byte \<Rightarrow> 64 word" where
  "triple_value s0 s1 s2 = push_bit 16 (ucast s0 :: 64 word) OR push_bit 8 (ucast s1) OR ucast s2"

definition sextet_char :: "Encoding \<Rightarrow> nat \<Rightarrow> 64 word \<Rightarrow> char" where
  "sextet_char enc k v = encode_at enc (drop_bit k v AND mask 6)"

definition quad_value :: "byte \<Rightarrow> byte \<Rightarrow> byte \<Rightarrow> byte \<Rightarrow> 64 word" where
  "quad_value d0 d1 d2 d3 =
     push_bit 18 (ucast d0 :: 64 word) OR push_bit 12 (ucast d1) OR push_bit 6 (ucast d2) OR ucast d3"

definition byte0 :: "64 word \<Rightarrow> byte" where "byte0 v = ucast (drop_bit 16 v)"

definition byte1 :: "64 word \<Rightarrow> byte" where "byte1 v = ucast (drop_bit 8 v)"

definition byte2 :: "64 word \<Rightarrow> byte" where "byte2 v = ucast v"

section \<open>Example values\<close>

text \<open>
  A small JSON library, signing method, environment, claims, token text, key function and
  extractor, used to instantiate the theorems below on concrete inputs. The library
  serialises everything as \<open>{}\<close> and reads every map as \<open>{"alg":"HS256"}\<close>; the
  method signs with the key \<open>secret\<close> only and accepts every signature.
\<close>

definition example_json :: "unit json_lib" where
  "example_json =
     \<lparr>Marshal_map = (\<lambda>m. Inr [0x7B, 0x7D]),
      Marshal_custom = (\<lambda>x. Inr [0x7B, 0x7D]),
      Unmarshal_map = (\<lambda>useNumber bs. Inr [''alg'' \<mapsto> JString ''HS256'']),
      Unmarshal_custom = (\<lambda>useNumber bs x. Inr x)\<rparr>"

definition example_method :: "string SigningMethod" where
  "example_method =
     \<lparr>Alg = ''HS256'',
      Sign = (\<lambda>signingString key. if key = ''secret'' then Inr ''c2ln'' else Inl SignError),
      Verify = (\<lambda>signingString sig key. None)\<rparr>"

definition example_env :: "(string, unit) env" where
  "example_env =
     \<lparr>vars = \<lparr>DecodePaddingAllowed = False, TimeFunc = 1000\<rparr>,
      json = example_json,
      GetSigningMethod = (\<lambda>alg. if alg = ''HS256'' then Some example_method else None)\<rparr>"

definition expired_claims :: "unit Claims" where
  "expired_claims = MapClaims [''exp'' \<mapsto> JNumber 1]"

definition example_token :: string where
  "example_token = ''e30.e30.c2ln''"

definition example_keyFunc :: "(string, unit) Keyfunc" where
  "example_keyFunc = (\<lambda>t. Inr ''secret'')"

definition failing_extractor :: "string Extractor" where
  "failing_extractor = (\<lambda>r. Inl (OtherError ''no token present in request''))"

section \<open>Bit-level facts\<close>

lemma mask6: "(0x3F :: 64 word) = mask 6"
  by (simp add: mask_eq_exp_minus_1)

lemma sextet_byte: "(ucast (ucast (x AND (mask 6 :: 64 word)) :: byte) :: 64 word) = x AND mask 6"
  by (rule bit_word_eqI) (auto simp: bit_simps)

lemma byte_bit: "bit (s :: byte) k \<Longrightarrow> k < 8"
  using bit_imp_le_length[of s k] by simp

lemma glue: "push_bit k (drop_bit k x AND mask m) OR (x AND mask k) = (x AND mask (k + m))"
  for x :: "64 word"
  by (rule bit_word_eqI) (auto simp: bit_simps)

lemma val24:
  fixes s0 s1 s2 :: byte
  shows "(push_bit 16 (ucast s0 :: 64 word) OR push_bit 8 (ucast s1) OR ucast s2) AND mask 24
     = push_bit 16 (ucast s0 :: 64 word) OR push_bit 8 (ucast s1) OR ucast s2"
  by (rule bit_word_eqI) (auto simp: bit_simps dest: byte_bit)

lemma quad_val:
  fixes val :: "64 word"
  shows "push_bit 18 (drop_bit 18 val AND mask 6) OR push_bit 12 (drop_bit 12 val AND mask 6)
           OR push_bit 6 (drop_bit 6 val AND mask 6) OR (val AND mask 6) = val AND mask 24"
proof -
  have "push_bit 6 (drop_bit 6 val AND mask 6) OR (val AND mask 6) = val AND mask 12"
    using glue[of 6 val 6] by simp
  moreover have "push_bit 12 (drop_bit 12 val AND mask 6) OR (val AND mask 12) = val AND mask 18"
    using glue[of 12 val 6] by simp
  moreover have "push_bit 18 (drop_bit 18 val AND mask 6) OR (val AND mask 18) = val AND mask 24"
    using glue[of 18 val 6] by simp
  ultimately show ?thesis by (simp add: or.assoc)
qed

lemma bytes_of_val:
  fixes s0 s1 s2 :: byte
  defines "val \<equiv> push_bit 16 (ucast s0 :: 64 word) OR push_bit 8 (ucast s1) OR ucast s2"
  shows "(ucast (drop_bit 16 val) :: byte) = s0"
    and "(ucast (drop_bit 8 val) :: byte) = s1"
    and "(ucast val :: byte) = s2"
  unfolding val_def
  by (rule bit_word_eqI; auto simp: bit_simps dest: byte_bit)+

section \<open>The decode table\<close>

lemma fold_upd_notin:
  "c \<notin> set xs \<Longrightarrow>
   fold (\<lambda>(i, c) m. m(c := (of_nat i :: byte))) (enumerate n xs) m0 c = m0 c"
  by (induction xs arbitrary: n m0) (auto simp del: fun_upd_apply simp add: fun_upd_other)

lemma fold_upd_nth:
  "distinct xs \<Longrightarrow> i < length xs \<Longrightarrow>
   fold (\<lambda>(i, c) m. m(c := (of_nat i :: byte))) (enumerate n xs) m0 (xs ! i) = of_nat (n + i)"
proof (induction xs arbitrary: n m0 i)
  case Nil
  then show ?case by simp
next
  case (Cons x xs)
  show ?case
  proof (cases i)
    case 0
    with Cons.prems fold_upd_notin[of x xs "Suc n" "m0(x := of_nat n)"] show ?thesis
      by (simp del: fun_upd_apply add: fun_upd_same)
  next
    case (Suc k)
    with Cons.prems Cons.IH[of k "Suc n"] show ?thesis by (simp del: fun_upd_apply)
  qed
qed

lemma distinct_encodeURL: "distinct encodeURL"
  unfolding encodeURL_def by simp

lemma length_encodeURL: "length encodeURL = 64"
  unfolding encodeURL_def by simp

lemma decodeMap_notin: "c \<notin> set (encode enc) \<Longrightarrow> decodeMap enc c = 0xFF"
  by (simp add: decodeMap_def fold_upd_notin)

lemma decodeMap_nth:
  "encode enc = encodeURL \<Longrightarrow> i < 64 \<Longrightarrow> decodeMap enc (encodeURL ! i) = of_nat i"
  using fold_upd_nth[OF distinct_encodeURL, of i 0] 
  by (simp add: decodeMap_def length_encodeURL)

lemma decodeMap_in:
  assumes "encode enc = encodeURL" "c \<in> set encodeURL"
  shows "\<exists>i<64. decodeMap enc c = of_nat i"
proof -
  from assms(2) obtain i where "i < length encodeURL" "encodeURL ! i = c"
    by (auto simp: in_set_conv_nth)
  with decodeMap_nth[OF assms(1), of i] show ?thesis
    by (auto simp: length_encodeURL)
qed

lemma of_nat_ne_FF: "i < 64 \<Longrightarrow> (of_nat i :: byte) \<noteq> 0xFF"
proof
  assume "i < 64" "(of_nat i :: byte) = 0xFF"
  then have "unat (of_nat i :: byte) = 255" by simp
  moreover have "unat (of_nat i :: byte) = i" using \<open>i < 64\<close> by (simp add: unat_of_nat)
  ultimately show False using \<open>i < 64\<close> by simp
qed

lemma valid_iff:
  assumes "encode enc = encodeURL"
  shows "decodeMap enc c \<noteq> 0xFF \<longleftrightarrow> c \<in> set encodeURL"
  using decodeMap_in[OF assms, of c] decodeMap_notin[of c enc] assms of_nat_ne_FF
  by auto

lemma unat_sextet: "unat (x AND mask 6 :: 64 word) < 64"
proof -
  have "x AND mask 6 \<le> mask 6" by (rule word_and_le1)
  then have "unat (x AND mask 6) \<le> unat (mask 6 :: 64 word)" by (simp add: word_le_nat_alt)
  then show ?thesis by (simp add: mask_eq_exp_minus_1)
qed

lemma decodeMap_encode_at:
  assumes "encode enc = encodeURL"
  shows "decodeMap enc (encode_at enc (x AND mask 6)) = ucast (x AND mask 6)"
  using decodeMap_nth[OF assms unat_sextet[of x]] assms
  by (simp add: encode_at_def)

lemma encode_at_valid:
  assumes "encode enc = encodeURL"
  shows "decodeMap enc (encode_at enc (x AND mask 6)) \<noteq> 0xFF"
  using decodeMap_nth[OF assms unat_sextet[of x]] assms of_nat_ne_FF[OF unat_sextet[of x]]
  by (simp add: encode_at_def)

section \<open>One quantum\<close>

lemma quad_roundtrip:
  fixes v :: "64 word"
  shows "quad_value (ucast (drop_bit 18 v AND mask 6)) (ucast (drop_bit 12 v AND mask 6))
           (ucast (drop_bit 6 v AND mask 6)) (ucast (v AND mask 6)) = v AND mask 24"
  unfolding quad_value_def sextet_byte by (rule quad_val)

lemma loop_valid_step:
  "j < 4 \<Longrightarrow> decodeMap enc c \<noteq> 0xFF \<Longrightarrow>
   decodeQuantum_loop enc j dbuf si (c # src)
     = decodeQuantum_loop enc (Suc j) (dbuf[j := decodeMap enc c]) (Suc si) src"
  by (simp add: Let_def)

lemma loop_full: "4 \<le> j \<Longrightarrow> decodeQuantum_loop enc j dbuf si src = Break dbuf 4 si src None"
  by (cases src) simp_all

lemma loop_pad2:
  assumes "padChar enc = Some p" "decodeMap enc p = 0xFF" "\<not> is_newline p"
  shows "decodeQuantum_loop enc 2 dbuf si [p, p] = Break dbuf 2 (si + 2) [] None"
  using assms by (simp add: Let_def)

lemma loop_pad3:
  assumes "padChar enc = Some p" "decodeMap enc p = 0xFF" "\<not> is_newline p"
  shows "decodeQuantum_loop enc 3 dbuf si [p] = Break dbuf 3 (si + 1) [] None"
  using assms by (simp add: Let_def)

lemma loop_end_raw:
  assumes "padChar enc = None" "j = 2 \<or> j = 3"
  shows "decodeQuantum_loop enc j dbuf si [] = Break dbuf j si [] None"
  using assms by auto

lemma loop_raw_invalid:
  assumes "padChar enc = None" "decodeMap enc c = 0xFF" "\<not> is_newline c" "j < 4"
  shows "decodeQuantum_loop enc j dbuf si (c # rest) = Return (si + 1) (Some (CorruptInputError si))"
  using assms by (simp add: Let_def)

lemma loop4:
  assumes "decodeMap enc c0 \<noteq> 0xFF" "decodeMap enc c1 \<noteq> 0xFF"
    "decodeMap enc c2 \<noteq> 0xFF" "decodeMap enc c3 \<noteq> 0xFF"
  shows "decodeQuantum_loop enc 0 [0, 0, 0, 0] si (c0 # c1 # c2 # c3 # rest)
    = Break [decodeMap enc c0, decodeMap enc c1, decodeMap enc c2, decodeMap enc c3] 4
        (si + 4) rest None"
  using assms by (simp add: loop_valid_step loop_full del: decodeQuantum_loop.simps)

lemma loop3:
  assumes "decodeMap enc c0 \<noteq> 0xFF" "decodeMap enc c1 \<noteq> 0xFF" "decodeMap enc c2 \<noteq> 0xFF"
  shows "decodeQuantum_loop enc 0 [0, 0, 0, 0] si (c0 # c1 # c2 # rest)
    = decodeQuantum_loop enc 3 [decodeMap enc c0, decodeMap enc c1, decodeMap enc c2, 0]
        (si + 3) rest"
  using assms by (simp add: loop_valid_step numeral_3_eq_3 del: decodeQuantum_loop.simps)

lemma loop2:
  assumes "decodeMap enc c0 \<noteq> 0xFF" "decodeMap enc c1 \<noteq> 0xFF"
  shows "decodeQuantum_loop enc 0 [0, 0, 0, 0] si (c0 # c1 # rest)
    = decodeQuantum_loop enc 2 [decodeMap enc c0, decodeMap enc c1, 0, 0] (si + 2) rest"
  using assms by (simp add: loop_valid_step numeral_2_eq_2 del: decodeQuantum_loop.simps)

lemma nth4: "[a, b, c, d] ! 0 = a" "[a, b, c, d] ! 1 = b" "[a, b, c, d] ! 2 = c" "[a, b, c, d] ! 3 = d"
  by simp_all

lemma quantum_Break:
  "decodeQuantum_loop enc 0 [0, 0, 0, 0] si src = Break [d0, d1, d2, d3] dlen nsi rest err \<Longrightarrow>
   \<not> strict enc \<Longrightarrow>
   decodeQuantum enc si src =
     (nsi, rest,
      (if dlen = 4 then [ucast (drop_bit 16 (quad_value d0 d1 d2 d3)),
                         ucast (drop_bit 8 (quad_value d0 d1 d2 d3)),
                         ucast (quad_value d0 d1 d2 d3)]
       else if dlen = 3 then [ucast (drop_bit 16 (quad_value d0 d1 d2 d3)),
                              ucast (drop_bit 8 (quad_value d0 d1 d2 d3))]
       else [ucast (drop_bit 16 (quad_value d0 d1 d2 d3))]), err)"
  unfolding decodeQuantum_def quad_value_def
  by (simp only: loop_exit.case nth4 Let_def split: if_split) simp

lemma Decode_Nil: "Decode enc si [] = ([], None)"
  by (subst Decode.simps) simp

lemma Decode_Cons:
  "Decode enc si (c # cs) =
     (case decodeQuantum enc si (c # cs) of
        (nsi, rest, out, err) \<Rightarrow>
          if err \<noteq> None then (out, err)
          else case Decode enc nsi rest of (out', err') \<Rightarrow> (out @ out', err'))"
  by (subst Decode.simps) simp


lemma Decode4:
  assumes "decodeMap enc c0 \<noteq> 0xFF" "decodeMap enc c1 \<noteq> 0xFF"
    "decodeMap enc c2 \<noteq> 0xFF" "decodeMap enc c3 \<noteq> 0xFF" "\<not> strict enc"
  shows "Decode enc si (c0 # c1 # c2 # c3 # rest)
    = (case Decode enc (si + 4) rest of
         (out, err) \<Rightarrow>
           (byte0 (quad_value (decodeMap enc c0) (decodeMap enc c1) (decodeMap enc c2) (decodeMap enc c3))
            # byte1 (quad_value (decodeMap enc c0) (decodeMap enc c1) (decodeMap enc c2) (decodeMap enc c3))
            # byte2 (quad_value (decodeMap enc c0) (decodeMap enc c1) (decodeMap enc c2) (decodeMap enc c3))
            # out, err))"
  unfolding byte0_def byte1_def byte2_def
  by (simp only: Decode_Cons quantum_Break[OF loop4[OF assms(1-4)] assms(5)])
     (simp split: prod.splits)

lemma Decode_raw2:
  assumes "decodeMap enc c0 \<noteq> 0xFF" "decodeMap enc c1 \<noteq> 0xFF" "\<not> strict enc"
    "padChar enc = None"
  shows "Decode enc si [c0, c1]
    = ([byte0 (quad_value (decodeMap enc c0) (decodeMap enc c1) 0 0)], None)"
proof -
  have "decodeQuantum_loop enc 0 [0, 0, 0, 0] si [c0, c1]
      = Break [decodeMap enc c0, decodeMap enc c1, 0, 0] 2 (si + 2) [] None"
    by (simp add: loop2[OF assms(1,2)] loop_end_raw[OF assms(4)] del: decodeQuantum_loop.simps)
  from quantum_Break[OF this assms(3)] show ?thesis
    unfolding byte0_def by (simp only: Decode_Cons) (simp add: Decode_Nil)
qed

lemma Decode_raw3:
  assumes "decodeMap enc c0 \<noteq> 0xFF" "decodeMap enc c1 \<noteq> 0xFF" "decodeMap enc c2 \<noteq> 0xFF"
    "\<not> strict enc" "padChar enc = None"
  shows "Decode enc si [c0, c1, c2]
    = ([byte0 (quad_value (decodeMap enc c0) (decodeMap enc c1) (decodeMap enc c2) 0),
        byte1 (quad_value (decodeMap enc c0) (decodeMap enc c1) (decodeMap enc c2) 0)], None)"
proof -
  have "decodeQuantum_loop enc 0 [0, 0, 0, 0] si [c0, c1, c2]
      = Break [decodeMap enc c0, decodeMap enc c1, decodeMap enc c2, 0] 3 (si + 3) [] None"
    by (simp add: loop3[OF assms(1,2,3)] loop_end_raw[OF assms(5)] del: decodeQuantum_loop.simps)
  from quantum_Break[OF this assms(4)] show ?thesis
    unfolding byte0_def byte1_def by (simp only: Decode_Cons) (simp add: Decode_Nil)
qed

lemma Decode_pad2:
  assumes "decodeMap enc c0 \<noteq> 0xFF" "decodeMap enc c1 \<noteq> 0xFF" "\<not> strict enc"
    "padChar enc = Some p" "decodeMap enc p = 0xFF" "\<not> is_newline p"
  shows "Decode enc si [c0, c1, p, p]
    = ([byte0 (quad_value (decodeMap enc c0) (decodeMap enc c1) 0 0)], None)"
proof -
  have "decodeQuantum_loop enc 0 [0, 0, 0, 0] si [c0, c1, p, p]
      = Break [decodeMap enc c0, decodeMap enc c1, 0, 0] 2 (si + 2 + 2) [] None"
    by (simp only: loop2[OF assms(1,2)] loop_pad2[OF assms(4,5,6)])
  from quantum_Break[OF this assms(3)] show ?thesis
    unfolding byte0_def by (simp only: Decode_Cons) (simp add: Decode_Nil)
qed

lemma Decode_pad3:
  assumes "decodeMap enc c0 \<noteq> 0xFF" "decodeMap enc c1 \<noteq> 0xFF" "decodeMap enc c2 \<noteq> 0xFF"
    "\<not> strict enc" "padChar enc = Some p" "decodeMap enc p = 0xFF" "\<not> is_newline p"
  shows "Decode enc si [c0, c1, c2, p]
    = ([byte0 (quad_value (decodeMap enc c0) (decodeMap enc c1) (decodeMap enc c2) 0),
        byte1 (quad_value (decodeMap enc c0) (decodeMap enc c1) (decodeMap enc c2) 0)], None)"
proof -
  have "decodeQuantum_loop enc 0 [0, 0, 0, 0] si [c0, c1, c2, p]
      = Break [decodeMap enc c0, decodeMap enc c1, decodeMap enc c2, 0] 3 (si + 3 + 1) [] None"
    by (simp only: loop3[OF assms(1,2,3)] loop_pad3[OF assms(5,6,7)])
  from quantum_Break[OF this assms(4)] show ?thesis
    unfolding byte0_def byte1_def by (simp only: Decode_Cons) (simp add: Decode_Nil)
qed

section \<open>Decoding what was encoded\<close>

lemma triple_bytes:
  "byte0 (triple_value s0 s1 s2) = s0"
  "byte1 (triple_value s0 s1 s2) = s1"
  "byte2 (triple_value s0 s1 s2) = s2"
  unfolding byte0_def byte1_def byte2_def triple_value_def by (rule bytes_of_val)+

lemma triple_mask24: "triple_value s0 s1 s2 AND mask 24 = triple_value s0 s1 s2"
  unfolding triple_value_def by (rule val24)

lemma triple_low6: "triple_value s0 s1 0 AND mask 6 = 0"
  unfolding triple_value_def
  by (rule bit_word_eqI) (auto simp: bit_simps dest: byte_bit)

lemma triple_mid6: "drop_bit 6 (triple_value s0 0 0) AND mask 6 = 0"
  unfolding triple_value_def
  by (rule bit_word_eqI) (auto simp: bit_simps dest: byte_bit)

lemma triple_1: "push_bit 16 (ucast s0 :: 64 word) = triple_value s0 0 0"
  by (simp add: triple_value_def)

lemma triple_2: "push_bit 16 (ucast s0 :: 64 word) OR push_bit 8 (ucast s1) = triple_value s0 s1 0"
  by (simp add: triple_value_def)

lemma triple_3: "push_bit 16 (ucast s0 :: 64 word) OR push_bit 8 (ucast s1) OR ucast s2 = triple_value s0 s1 s2"
  by (simp add: triple_value_def)

lemma sextet_char_0: "encode_at enc (v AND mask 6) = sextet_char enc 0 v"
  by (simp add: sextet_char_def)

lemma decodeMap_sextet:
  assumes "encode enc = encodeURL"
  shows "decodeMap enc (sextet_char enc k v) = ucast (drop_bit k v AND mask 6)"
    and "decodeMap enc (sextet_char enc k v) \<noteq> 0xFF"
  unfolding sextet_char_def
  by (rule decodeMap_encode_at[OF assms] encode_at_valid[OF assms])+

lemma Encode_folded:
  "Encode enc [] = []"
  "Encode enc [s0] =
     [sextet_char enc 18 (triple_value s0 0 0), sextet_char enc 12 (triple_value s0 0 0)]
     @ (case padChar enc of None \<Rightarrow> [] | Some p \<Rightarrow> [p, p])"
  "Encode enc [s0, s1] =
     [sextet_char enc 18 (triple_value s0 s1 0), sextet_char enc 12 (triple_value s0 s1 0),
      sextet_char enc 6 (triple_value s0 s1 0)]
     @ (case padChar enc of None \<Rightarrow> [] | Some p \<Rightarrow> [p])"
  "Encode enc (s0 # s1 # s2 # src) =
     [sextet_char enc 18 (triple_value s0 s1 s2), sextet_char enc 12 (triple_value s0 s1 s2),
      sextet_char enc 6 (triple_value s0 s1 s2), sextet_char enc 0 (triple_value s0 s1 s2)]
     @ Encode enc src"
  unfolding sextet_char_def
     apply (simp only: Encode.simps)
    apply (simp only: Encode.simps Let_def mask6 triple_1)
   apply (simp only: Encode.simps Let_def mask6 triple_2)
  apply (simp only: Encode.simps Let_def mask6 triple_3 drop_bit_0 id_apply)
  done

lemma quad_of_sextets:
  assumes "encode enc = encodeURL"
  shows "quad_value (decodeMap enc (sextet_char enc 18 v)) (decodeMap enc (sextet_char enc 12 v))
          (decodeMap enc (sextet_char enc 6 v)) (decodeMap enc (sextet_char enc 0 v)) = v AND mask 24"
  using quad_roundtrip[of v]
  by (simp only: decodeMap_sextet(1)[OF assms] drop_bit_0 id_apply)

lemma quad_of_sextets3:
  assumes "encode enc = encodeURL"
  shows "quad_value (decodeMap enc (sextet_char enc 18 (triple_value s0 s1 0)))
          (decodeMap enc (sextet_char enc 12 (triple_value s0 s1 0)))
          (decodeMap enc (sextet_char enc 6 (triple_value s0 s1 0))) 0 = triple_value s0 s1 0"
  using quad_roundtrip[of "triple_value s0 s1 0"]
  by (simp only: decodeMap_sextet(1)[OF assms] triple_low6 triple_mask24 ucast_0)

lemma quad_of_sextets2:
  assumes "encode enc = encodeURL"
  shows "quad_value (decodeMap enc (sextet_char enc 18 (triple_value s0 0 0)))
          (decodeMap enc (sextet_char enc 12 (triple_value s0 0 0))) 0 0 = triple_value s0 0 0"
  using quad_roundtrip[of "triple_value s0 0 0"]
  by (simp only: decodeMap_sextet(1)[OF assms] triple_low6 triple_mid6 triple_mask24 ucast_0)

lemma pad_not_in_alphabet: "CHR ''='' \<notin> set encodeURL"
  by (simp add: encodeURL_def)

lemma pad_not_newline: "\<not> is_newline CHR ''=''"
  by (simp add: is_newline_def)

lemma Decode_Encode:
  assumes alph: "encode enc = encodeURL"
    and pad: "padChar enc = None \<or> padChar enc = Some CHR ''=''"
    and ns: "\<not> strict enc"
  shows "Decode enc si (Encode enc bs) = (bs, None)"
  using assms
proof (induction enc bs arbitrary: si rule: Encode.induct)
  case (1 enc)
  show ?case by (simp add: Decode_Nil)
next
  case (2 enc s0)
  note v = decodeMap_sextet(2)[OF 2(1)]
  have pd: "decodeMap enc CHR ''='' = 0xFF"
    using decodeMap_notin[of "CHR ''=''" enc] pad_not_in_alphabet 2(1) by simp
  from 2(2) show ?case
  proof
    assume p: "padChar enc = None"
    show ?thesis
      by (simp only: Encode_folded p option.case append_Cons append_Nil
            Decode_raw2[OF v v 2(3) p] quad_of_sextets2[OF 2(1)] triple_bytes)
  next
    assume p: "padChar enc = Some CHR ''=''"
    show ?thesis
      by (simp only: Encode_folded p option.case append_Cons append_Nil
            Decode_pad2[OF v v 2(3) p pd pad_not_newline] quad_of_sextets2[OF 2(1)] triple_bytes)
  qed
next
  case (3 enc s0 s1)
  note v = decodeMap_sextet(2)[OF 3(1)]
  have pd: "decodeMap enc CHR ''='' = 0xFF"
    using decodeMap_notin[of "CHR ''=''" enc] pad_not_in_alphabet 3(1) by simp
  from 3(2) show ?case
  proof
    assume p: "padChar enc = None"
    show ?thesis
      by (simp only: Encode_folded p option.case append_Cons append_Nil
            Decode_raw3[OF v v v 3(3) p] quad_of_sextets3[OF 3(1)] triple_bytes)
  next
    assume p: "padChar enc = Some CHR ''=''"
    show ?thesis
      by (simp only: Encode_folded p option.case append_Cons append_Nil
            Decode_pad3[OF v v v 3(3) p pd pad_not_newline] quad_of_sextets3[OF 3(1)] triple_bytes)
  qed
next
  case (4 enc s0 s1 s2 src)
  note v = decodeMap_sextet(2)[OF 4(2)]
  have IH: "Decode enc (si + 4) (Encode enc src) = (src, None)"
    by (rule 4(1)[OF refl 4(2,3,4)])
  show ?case
    by (simp only: Encode_folded append_Cons append_Nil Decode4[OF v v v v 4(4)] IH
          quad_of_sextets[OF 4(2)] triple_mask24 triple_bytes prod.case)
qed

lemma sextet_char_cong: "encode enc' = encode enc \<Longrightarrow> sextet_char enc' k v = sextet_char enc k v"
  by (simp add: sextet_char_def encode_at_def)

lemma pad_Encode:
  assumes "encode enc' = encode enc" "padChar enc = None" "padChar enc' = Some CHR ''=''"
  shows "(if 0 < length (Encode enc bs) mod 4
          then Encode enc bs @ replicate (4 - length (Encode enc bs) mod 4) CHR ''=''
          else Encode enc bs) = Encode enc' bs"
  using assms
proof (induction enc bs rule: Encode.induct)
  case (1 enc)
  show ?case by (simp only: Encode_folded) simp
next
  case (2 enc s0)
  then show ?case
    by (simp only: Encode_folded sextet_char_cong[OF 2(1)] option.case) (simp add: numeral_2_eq_2)
next
  case (3 enc s0 s1)
  then show ?case
    by (simp only: Encode_folded sextet_char_cong[OF 3(1)] option.case) simp
next
  case (4 enc s0 s1 s2 src)
  have IH: "(if 0 < length (Encode enc src) mod 4
          then Encode enc src @ replicate (4 - length (Encode enc src) mod 4) CHR ''=''
          else Encode enc src) = Encode enc' src"
    by (rule 4(1)[OF refl 4(2,3,4)])
  have len: "length (Encode enc (s0 # s1 # s2 # src)) mod 4 = length (Encode enc src) mod 4"
    by (simp only: Encode_folded) simp
  show ?case
    unfolding len
    by (simp only: Encode_folded sextet_char_cong[OF 4(2)] IH[symmetric]) simp
qed

lemma URL_facts:
  "encode URLEncoding = encodeURL" "padChar URLEncoding = Some CHR ''=''" "\<not> strict URLEncoding"
  "encode RawURLEncoding = encodeURL" "padChar RawURLEncoding = None" "\<not> strict RawURLEncoding"
  by (simp_all add: URLEncoding_def RawURLEncoding_def)

lemma DecodeSegment_EncodeSegment: "DecodeSegment g (EncodeSegment b) = (b, None)"
proof (cases "DecodePaddingAllowed g")
  case True
  have "DecodeSegment g (EncodeSegment b) = Decode URLEncoding 0 (Encode URLEncoding b)"
    using True pad_Encode[of URLEncoding RawURLEncoding b]
    by (simp add: DecodeSegment_def EncodeSegment_def EncodeToString_def DecodeString_def
          URL_facts Let_def)
  then show ?thesis
    by (simp add: Decode_Encode URL_facts)
next
  case False
  then show ?thesis
    by (simp add: DecodeSegment_def EncodeSegment_def EncodeToString_def DecodeString_def
          Decode_Encode URL_facts)
qed

lemma Encode_raw_alphabet:
  assumes "encode enc = encodeURL" "padChar enc = None"
  shows "set (Encode enc bs) \<subseteq> set encodeURL"
  using assms
proof (induction enc bs rule: Encode.induct)
  case (4 enc s0 s1 s2 src)
  have IH: "set (Encode enc src) \<subseteq> set encodeURL" by (rule 4(1)[OF refl 4(2,3)])
  have "sextet_char enc k v \<in> set encodeURL" for k v
    using valid_iff[OF 4(2)] decodeMap_sextet(2)[OF 4(2)] by blast
  with IH show ?case by (simp only: Encode_folded) simp
next
  case (1 enc) show ?case by simp
next
  case (2 enc s0)
  have "sextet_char enc k v \<in> set encodeURL" for k v
    using valid_iff[OF 2(1)] decodeMap_sextet(2)[OF 2(1)] by blast
  with 2 show ?case by (simp only: Encode_folded option.case) simp
next
  case (3 enc s0 s1)
  have "sextet_char enc k v \<in> set encodeURL" for k v
    using valid_iff[OF 3(1)] decodeMap_sextet(2)[OF 3(1)] by blast
  with 3 show ?case by (simp only: Encode_folded option.case) simp
qed

lemma Encode_raw_length:
  assumes "padChar enc = None"
  shows "length (Encode enc bs) mod 4 \<noteq> 1"
  using assms
proof (induction enc bs rule: Encode.induct)
  case (4 enc s0 s1 s2 src)
  have "length (Encode enc src) mod 4 \<noteq> 1" by (rule 4(1)[OF refl 4(2)])
  then show ?case by (simp only: Encode_folded) simp
qed (simp_all only: Encode_folded option.case, simp_all)

section \<open>Decoding well-formed segments\<close>

lemma list4_cases:
  fixes s :: "'a list"
  obtains (len0) "s = []"
    | (len1) a where "s = [a]"
    | (len2) a b where "s = [a, b]"
    | (len3) a b c where "s = [a, b, c]"
    | (more) a b c d r where "s = a # b # c # d # r"
proof (cases s)
  case Nil
  then show ?thesis by (rule len0)
next
  case s1: (Cons a s1)
  show ?thesis
  proof (cases s1)
    case Nil
    with s1 show ?thesis by (simp add: len1)
  next
    case s2: (Cons b s2)
    show ?thesis
    proof (cases s2)
      case Nil
      with s1 s2 show ?thesis by (simp add: len2)
    next
      case s3: (Cons c s3)
      show ?thesis
      proof (cases s3)
        case Nil
        with s1 s2 s3 show ?thesis by (simp add: len3)
      next
        case (Cons d r)
        with s1 s2 s3 show ?thesis by (simp add: more)
      qed
    qed
  qed
qed

lemma quantum_Return:
  "decodeQuantum_loop enc 0 [0, 0, 0, 0] si src = Return nsi err \<Longrightarrow>
   decodeQuantum enc si src = (nsi, [], [], err)"
  by (simp add: decodeQuantum_def)

lemma Decode_Return:
  assumes "decodeQuantum_loop enc 0 [0, 0, 0, 0] si (c # cs) = Return nsi (Some err)"
  shows "snd (Decode enc si (c # cs)) \<noteq> None"
  by (simp only: Decode_Cons quantum_Return[OF assms]) simp

lemma Decode_valid_raw:
  assumes "padChar enc = None" "\<not> strict enc"
    and "\<forall>c\<in>set s. decodeMap enc c \<noteq> 0xFF" "length s mod 4 \<noteq> 1"
  shows "snd (Decode enc si s) = None"
  using assms(3,4)
proof (induction "length s" arbitrary: s si rule: less_induct)
  case less
  show ?case
  proof (cases s rule: list4_cases)
    case len0
    then show ?thesis by (simp add: Decode_Nil)
  next
    case (len1 a)
    with less.prems show ?thesis by simp
  next
    case (len2 a b)
    with less.prems show ?thesis by (simp add: Decode_raw2 assms(1,2))
  next
    case (len3 a b c)
    with less.prems show ?thesis by (simp add: Decode_raw3 assms(1,2))
  next
    case (more a b c d r)
    with less.prems have v: "decodeMap enc a \<noteq> 0xFF" "decodeMap enc b \<noteq> 0xFF"
      "decodeMap enc c \<noteq> 0xFF" "decodeMap enc d \<noteq> 0xFF"
      and r: "\<forall>c\<in>set r. decodeMap enc c \<noteq> 0xFF" "length r mod 4 \<noteq> 1"
      by simp_all
    have "snd (Decode enc (si + 4) r) = None"
      using less.hyps[of r "si + 4"] r more by simp
    then show ?thesis
      unfolding more by (simp only: Decode4[OF v assms(2)]) (auto split: prod.splits)
  qed
qed

lemma Decode_valid_pad:
  assumes "padChar enc = Some p" "decodeMap enc p = 0xFF" "\<not> is_newline p" "\<not> strict enc"
    and "\<forall>c\<in>set body. decodeMap enc c \<noteq> 0xFF"
    and "length body mod 4 = 0 \<and> pad = [] \<or> length body mod 4 = 2 \<and> pad = [p, p]
           \<or> length body mod 4 = 3 \<and> pad = [p]"
  shows "snd (Decode enc si (body @ pad)) = None"
  using assms(5,6)
proof (induction "length body" arbitrary: body si rule: less_induct)
  case less
  show ?case
  proof (cases body rule: list4_cases)
    case len0
    with less.prems show ?thesis by (simp add: Decode_Nil)
  next
    case (len1 a)
    with less.prems show ?thesis by simp
  next
    case (len2 a b)
    with less.prems show ?thesis by (simp add: Decode_pad2 assms(1-4))
  next
    case (len3 a b c)
    with less.prems show ?thesis by (simp add: Decode_pad3 assms(1-4))
  next
    case (more a b c d r)
    with less.prems have v: "decodeMap enc a \<noteq> 0xFF" "decodeMap enc b \<noteq> 0xFF"
      "decodeMap enc c \<noteq> 0xFF" "decodeMap enc d \<noteq> 0xFF"
      and r: "\<forall>c\<in>set r. decodeMap enc c \<noteq> 0xFF"
        "length r mod 4 = 0 \<and> pad = [] \<or> length r mod 4 = 2 \<and> pad = [p, p]
           \<or> length r mod 4 = 3 \<and> pad = [p]"
      by simp_all
    have "snd (Decode enc (si + 4) (r @ pad)) = None"
      using less.hyps[of r "si + 4"] r more by simp
    then show ?thesis
      unfolding more by (simp only: append_Cons Decode4[OF v assms(4)]) (auto split: prod.splits)
  qed
qed

lemma Decode_raw_rejects:
  assumes "padChar enc = None" "\<not> strict enc" "decodeMap enc p = 0xFF" "\<not> is_newline p"
    and "\<forall>c\<in>set body. decodeMap enc c \<noteq> 0xFF"
  shows "snd (Decode enc si (body @ p # rest)) \<noteq> None"
  using assms(5)
proof (induction "length body" arbitrary: body si rule: less_induct)
  case less
  note inv = loop_raw_invalid[OF assms(1,3,4)]
  show ?case
  proof (cases body rule: list4_cases)
    case len0
    show ?thesis unfolding len0 append_Nil
      by (rule Decode_Return[where nsi = "si + 1" and err = "CorruptInputError si"])
         (simp add: inv del: decodeQuantum_loop.simps)
  next
    case (len1 a)
    with less.prems have v: "decodeMap enc a \<noteq> 0xFF" by simp
    show ?thesis unfolding len1 append_Cons append_Nil
      by (rule Decode_Return[where nsi = "si + 2" and err = "CorruptInputError (si + 1)"])
         (simp add: loop_valid_step v inv del: decodeQuantum_loop.simps)
  next
    case (len2 a b)
    with less.prems have v: "decodeMap enc a \<noteq> 0xFF" "decodeMap enc b \<noteq> 0xFF" by simp_all
    show ?thesis unfolding len2 append_Cons append_Nil
      by (rule Decode_Return[where nsi = "si + 3" and err = "CorruptInputError (si + 2)"])
         (simp add: loop2[OF v] inv del: decodeQuantum_loop.simps)
  next
    case (len3 a b c)
    with less.prems have v: "decodeMap enc a \<noteq> 0xFF" "decodeMap enc b \<noteq> 0xFF"
      "decodeMap enc c \<noteq> 0xFF" by simp_all
    show ?thesis unfolding len3 append_Cons append_Nil
      by (rule Decode_Return[where nsi = "si + 4" and err = "CorruptInputError (si + 3)"])
         (simp add: loop3[OF v] inv del: decodeQuantum_loop.simps)
  next
    case (more a b c d r)
    with less.prems have v: "decodeMap enc a \<noteq> 0xFF" "decodeMap enc b \<noteq> 0xFF"
      "decodeMap enc c \<noteq> 0xFF" "decodeMap enc d \<noteq> 0xFF"
      and r: "\<forall>c\<in>set r. decodeMap enc c \<noteq> 0xFF"
      by simp_all
    have "snd (Decode enc (si + 4) (r @ p # rest)) \<noteq> None"
      using less.hyps[of r "si + 4"] r more by simp
    then show ?thesis
      unfolding more by (simp only: append_Cons Decode4[OF v assms(2)]) (auto split: prod.splits)
  qed
qed

lemma valid_URL: "decodeMap URLEncoding c \<noteq> 0xFF \<longleftrightarrow> c \<in> set encodeURL"
  by (rule valid_iff) (simp add: URL_facts)

lemma valid_RawURL: "decodeMap RawURLEncoding c \<noteq> 0xFF \<longleftrightarrow> c \<in> set encodeURL"
  by (rule valid_iff) (simp add: URL_facts)

lemma pad_invalid: "decodeMap URLEncoding CHR ''='' = 0xFF" "decodeMap RawURLEncoding CHR ''='' = 0xFF"
  using valid_URL[of "CHR ''=''"] valid_RawURL[of "CHR ''=''"] pad_not_in_alphabet by simp_all

lemma padded_shape:
  assumes "is_padded_base64url seg"
  obtains body pad where "seg = body @ pad" "\<forall>c\<in>set body. c \<in> set encodeURL"
    "length body mod 4 = 2 \<and> pad = [CHR ''='', CHR ''='']
       \<or> length body mod 4 = 3 \<and> pad = [CHR ''='']"
proof -
  let ?body = "takeWhile (\<lambda>c. c \<noteq> CHR ''='') seg"
  let ?pad = "dropWhile (\<lambda>c. c \<noteq> CHR ''='') seg"
  have "seg = ?body @ ?pad" by simp
  moreover have "\<forall>c\<in>set ?body. c \<in> set encodeURL"
    using assms by (simp add: is_padded_base64url_def Let_def list_all_iff)
  moreover have "length ?body mod 4 = 2 \<and> ?pad = [CHR ''='', CHR ''='']
       \<or> length ?body mod 4 = 3 \<and> ?pad = [CHR ''='']"
    using assms by (simp add: is_padded_base64url_def Let_def)
  ultimately show ?thesis by (rule that)
qed

lemma padded_length:
  assumes "length body mod 4 = 2 \<and> pad = [p, p] \<or> length body mod 4 = 3 \<and> pad = [p]"
  shows "length (body @ pad) mod 4 = 0"
  using assms by (auto simp: mod_Suc)

lemma padded_rejected:
  assumes "is_padded_base64url seg" "\<not> DecodePaddingAllowed g"
  shows "snd (DecodeSegment g seg) \<noteq> None"
proof -
  from assms(1) obtain body pad where s: "seg = body @ pad"
    "\<forall>c\<in>set body. c \<in> set encodeURL"
    "length body mod 4 = 2 \<and> pad = [CHR ''='', CHR ''='']
       \<or> length body mod 4 = 3 \<and> pad = [CHR ''='']"
    by (rule padded_shape)
  from s(3) obtain rest where pad: "pad = CHR ''='' # rest" by auto
  have "snd (Decode RawURLEncoding 0 (body @ CHR ''='' # rest)) \<noteq> None"
    by (rule Decode_raw_rejects) (simp_all add: URL_facts pad_invalid pad_not_newline valid_RawURL s(2))
  with assms(2) s(1) pad show ?thesis
    by (simp add: DecodeSegment_def DecodeString_def)
qed

lemma padded_accepted:
  assumes "is_padded_base64url seg" "DecodePaddingAllowed g"
  shows "snd (DecodeSegment g seg) = None"
proof -
  from assms(1) obtain body pad where s: "seg = body @ pad"
    "\<forall>c\<in>set body. c \<in> set encodeURL"
    "length body mod 4 = 2 \<and> pad = [CHR ''='', CHR ''='']
       \<or> length body mod 4 = 3 \<and> pad = [CHR ''='']"
    by (rule padded_shape)
  have len: "length seg mod 4 = 0" unfolding s(1) by (rule padded_length) (rule s(3))
  have "snd (Decode URLEncoding 0 (body @ pad)) = None"
    by (rule Decode_valid_pad[where p = "CHR ''=''"])
       (use s(2,3) in \<open>simp_all add: URL_facts pad_invalid pad_not_newline valid_URL\<close>)
  with assms(2) s(1) len show ?thesis
    by (simp add: DecodeSegment_def DecodeString_def Let_def)
qed

lemma unpadded_accepted:
  assumes "is_unpadded_base64url seg"
  shows "snd (DecodeSegment g seg) = None"
proof (cases "DecodePaddingAllowed g")
  case False
  have "snd (Decode RawURLEncoding 0 seg) = None"
    by (rule Decode_valid_raw)
       (use assms in \<open>simp_all add: URL_facts valid_RawURL is_unpadded_base64url_def list_all_iff\<close>)
  with False show ?thesis by (simp add: DecodeSegment_def DecodeString_def)
next
  case True
  let ?l = "length seg mod 4"
  let ?pad = "if 0 < ?l then replicate (4 - ?l) CHR ''='' else []"
  have v: "\<forall>c\<in>set seg. decodeMap URLEncoding c \<noteq> 0xFF"
    using assms by (simp add: valid_URL is_unpadded_base64url_def list_all_iff)
  have "?l < 4" by simp
  moreover have "?l \<noteq> 1" using assms by (simp add: is_unpadded_base64url_def)
  ultimately have l: "?l = 0 \<or> ?l = 2 \<or> ?l = 3" by linarith
  then have shape: "?l = 0 \<and> ?pad = [] \<or> ?l = 2 \<and> ?pad = [CHR ''='', CHR ''='']
      \<or> ?l = 3 \<and> ?pad = [CHR ''='']"
    by (auto simp: numeral_2_eq_2)
  have "snd (Decode URLEncoding 0 (seg @ ?pad)) = None"
    by (rule Decode_valid_pad[where p = "CHR ''=''", OF _ _ _ _ v shape])
       (simp_all add: URL_facts pad_invalid pad_not_newline)
  moreover have "DecodeSegment g seg = Decode URLEncoding 0 (seg @ ?pad)"
    using True by (simp add: DecodeSegment_def DecodeString_def Let_def)
  ultimately show ?thesis by simp
qed


section \<open>The codec claims\<close>

text \<open>
  C2. Decoding what \<open>EncodeSegment\<close> produced gives the bytes back, without error,
  whatever the value of \<open>DecodePaddingAllowed\<close> (and of the other package variable).
\<close>

theorem DecodeSegment_EncodeSegment_roundtrip:
  "DecodeSegment g (EncodeSegment b) = (b, None)"
  by (rule DecodeSegment_EncodeSegment)

theorem DecodeSegment_EncodeSegment_roundtrip_witness:
  "DecodeSegment \<lparr>DecodePaddingAllowed = False, TimeFunc = 0\<rparr> (EncodeSegment [0x66, 0x6F, 0x6F, 0x62])
     = ([0x66, 0x6F, 0x6F, 0x62], None)
   \<and> DecodeSegment \<lparr>DecodePaddingAllowed = True, TimeFunc = 0\<rparr> (EncodeSegment [0x66, 0x6F, 0x6F, 0x62])
     = ([0x66, 0x6F, 0x6F, 0x62], None)"
  using DecodeSegment_EncodeSegment_roundtrip[of "\<lparr>DecodePaddingAllowed = False, TimeFunc = 0\<rparr>" "[0x66, 0x6F, 0x6F, 0x62]"]
    DecodeSegment_EncodeSegment_roundtrip[of "\<lparr>DecodePaddingAllowed = True, TimeFunc = 0\<rparr>" "[0x66, 0x6F, 0x6F, 0x62]"]
  by simp

text \<open>
  C3. A segment that is valid base64url with trailing padding is rejected when
  \<open>DecodePaddingAllowed\<close> is false and decoded when it is true; a valid unpadded segment
  is decoded under both settings.
\<close>

theorem DecodeSegment_padding_modes:
  "(is_padded_base64url seg \<longrightarrow>
      (\<not> DecodePaddingAllowed g \<longrightarrow> snd (DecodeSegment g seg) \<noteq> None)
      \<and> (DecodePaddingAllowed g \<longrightarrow> snd (DecodeSegment g seg) = None))
   \<and> (is_unpadded_base64url seg \<longrightarrow> snd (DecodeSegment g seg) = None)"
  using padded_rejected padded_accepted unpadded_accepted by blast

theorem DecodeSegment_padding_modes_witness:
  "is_padded_base64url ''Zm9vYg==''
   \<and> snd (DecodeSegment \<lparr>DecodePaddingAllowed = False, TimeFunc = 0\<rparr> ''Zm9vYg=='') \<noteq> None
   \<and> snd (DecodeSegment \<lparr>DecodePaddingAllowed = True, TimeFunc = 0\<rparr> ''Zm9vYg=='') = None
   \<and> is_unpadded_base64url ''Zm9vYg''
   \<and> snd (DecodeSegment \<lparr>DecodePaddingAllowed = False, TimeFunc = 0\<rparr> ''Zm9vYg'') = None
   \<and> snd (DecodeSegment \<lparr>DecodePaddingAllowed = True, TimeFunc = 0\<rparr> ''Zm9vYg'') = None"
proof -
  have p: "is_padded_base64url ''Zm9vYg==''" by code_simp
  have u: "is_unpadded_base64url ''Zm9vYg''" by code_simp
  show ?thesis
    using p u
      DecodeSegment_padding_modes[of "''Zm9vYg==''" "\<lparr>DecodePaddingAllowed = False, TimeFunc = 0\<rparr>"]
      DecodeSegment_padding_modes[of "''Zm9vYg==''" "\<lparr>DecodePaddingAllowed = True, TimeFunc = 0\<rparr>"]
      DecodeSegment_padding_modes[of "''Zm9vYg''" "\<lparr>DecodePaddingAllowed = False, TimeFunc = 0\<rparr>"]
      DecodeSegment_padding_modes[of "''Zm9vYg''" "\<lparr>DecodePaddingAllowed = True, TimeFunc = 0\<rparr>"]
    by simp
qed

text \<open>
  C7. The output of \<open>EncodeSegment\<close> is unpadded base64url: alphabet characters only, a
  length that is not 1 modulo 4, and no \<open>=\<close>. \<open>EncodeSegment\<close> takes no package
  variable, so this holds whatever \<open>DecodePaddingAllowed\<close> is.
\<close>

theorem EncodeSegment_unpadded:
  "is_unpadded_base64url (EncodeSegment b) \<and> CHR ''='' \<notin> set (EncodeSegment b)"
proof -
  have a: "set (EncodeSegment b) \<subseteq> set encodeURL"
    unfolding EncodeSegment_def EncodeToString_def
    by (rule Encode_raw_alphabet) (simp_all add: URL_facts)
  have l: "length (EncodeSegment b) mod 4 \<noteq> 1"
    unfolding EncodeSegment_def EncodeToString_def
    by (rule Encode_raw_length) (simp add: URL_facts)
  from a l pad_not_in_alphabet show ?thesis
    by (auto simp: is_unpadded_base64url_def list_all_iff)
qed

theorem EncodeSegment_unpadded_witness:
  "is_unpadded_base64url (EncodeSegment [0x66, 0x6F, 0x6F, 0x62])
   \<and> CHR ''='' \<notin> set (EncodeSegment [0x66, 0x6F, 0x6F, 0x62])
   \<and> EncodeSegment [0x66, 0x6F, 0x6F, 0x62] = ''Zm9vYg''"
proof -
  have "EncodeSegment [0x66, 0x6F, 0x6F, 0x62] = ''Zm9vYg''" by code_simp
  with EncodeSegment_unpadded[of "[0x66, 0x6F, 0x6F, 0x62]"] show ?thesis by simp
qed

section \<open>Tokens, signing and parsing\<close>

lemma example_segment: "EncodeSegment [0x7B, 0x7D] = ''e30''"
  by code_simp

lemma sig_segment: "EncodeSegment [0x73, 0x69, 0x67] = ''c2ln''"
  by code_simp

lemma fold_options_extractor:
  assumes "\<forall>option\<in>set options. \<forall>p. extractor (option p) = extractor p"
  shows "extractor (fold (\<lambda>option p. option p) options p) = extractor p"
  using assms by (induction options arbitrary: p) simp_all

lemma package_options_keep_extractor:
  "extractor (WithClaims cl p) = extractor p" "extractor (WithParser prs p) = extractor p"
  by (simp_all add: WithClaims_def WithParser_def)

section \<open>The token claims\<close>

text \<open>
  C4. A token made by \<open>NewWithClaims\<close> or \<open>New\<close> has the header entries \<open>typ\<close> and
  \<open>alg\<close>, the latter the method's algorithm identifier, and is not marked valid.
\<close>

theorem new_token_header_and_valid:
  fixes m :: "'k SigningMethod" and cl :: "'x Claims"
  defines "t \<equiv> NewWithClaims m cl" and "t0 \<equiv> (New m :: ('k, 'x) Token)"
  shows "Header t ''typ'' = Some (JString ''JWT'')
   \<and> Header t ''alg'' = Some (JString (Alg m))
   \<and> \<not> Valid t
   \<and> Header t0 ''typ'' = Some (JString ''JWT'')
   \<and> Header t0 ''alg'' = Some (JString (Alg m))
   \<and> \<not> Valid t0"
  by (simp add: t_def t0_def New_def NewWithClaims_def)

theorem new_token_header_and_valid_witness:
  "Header (NewWithClaims example_method expired_claims) ''typ'' = Some (JString ''JWT'')
   \<and> Header (NewWithClaims example_method expired_claims) ''alg'' = Some (JString ''HS256'')
   \<and> \<not> Valid (NewWithClaims example_method expired_claims)
   \<and> Header (New example_method :: (string, unit) Token) ''alg'' = Some (JString ''HS256'')
   \<and> \<not> Valid (New example_method :: (string, unit) Token)"
  using new_token_header_and_valid[of example_method expired_claims]
  by (simp add: example_method_def)

text \<open>
  C5. When header and claims serialise and the method signs, \<open>SignedString\<close> returns
  the two encoded segments and the signature joined by dots, and the text that was signed
  is the first two segments joined by a dot, which is also what \<open>SigningString\<close> returns.
\<close>

theorem SignedString_format:
  assumes "Method t = Some m"
    and "Marshal_map js (Header t) = Inr hb"
    and "json_Marshal_claims js (Claims t) = Inr cb"
    and "Sign m (EncodeSegment hb @ ''.'' @ EncodeSegment cb) k = Inr sig"
  shows "fst (SigningString js t) = Inr (EncodeSegment hb @ ''.'' @ EncodeSegment cb)
    \<and> fst (SignedString js t k) = Inr (EncodeSegment hb @ ''.'' @ EncodeSegment cb @ ''.'' @ sig)"
  using assms by (simp add: SignedString_def SigningString_def Let_def)

theorem SignedString_format_witness:
  "fst (SigningString example_json (NewWithClaims example_method expired_claims)) = Inr ''e30.e30''
   \<and> fst (SignedString example_json (NewWithClaims example_method expired_claims) ''secret'')
       = Inr ''e30.e30.c2ln''"
proof -
  let ?t = "NewWithClaims example_method expired_claims"
  have 1: "Method ?t = Some example_method" by (simp add: NewWithClaims_def)
  have 2: "Marshal_map example_json (Header ?t) = Inr [0x7B, 0x7D]" by (simp add: example_json_def)
  have 3: "json_Marshal_claims example_json (Claims ?t) = Inr [0x7B, 0x7D]"
    by (simp add: example_json_def json_Marshal_claims_def NewWithClaims_def expired_claims_def)
  have 4: "Sign example_method (EncodeSegment [0x7B, 0x7D] @ ''.'' @ EncodeSegment [0x7B, 0x7D]) ''secret''
      = Inr ''c2ln''"
    by (simp add: example_method_def)
  from SignedString_format[OF 1 2 3 4] show ?thesis by (simp add: example_segment)
qed

text \<open>
  C6. \<open>SignedString\<close> never validates the claims. With a method set it succeeds whenever
  the two serialisations and \<open>Sign\<close> succeed; an error it returns is the error of one of
  those three calls; and its result does not depend on the claims' \<open>Valid\<close> method.
\<close>

theorem SignedString_no_claims_validation:
  assumes "Method t = Some m"
  shows "(Marshal_map js (Header t) = Inr hb \<longrightarrow>
          json_Marshal_claims js (Claims t) = Inr cb \<longrightarrow>
          Sign m (EncodeSegment hb @ ''.'' @ EncodeSegment cb) k = Inr sig \<longrightarrow>
          (\<exists>out. fst (SignedString js t k) = Inr out))
    \<and> (fst (SignedString js t k) = Inl err \<longrightarrow>
          Marshal_map js (Header t) = Inl err
          \<or> json_Marshal_claims js (Claims t) = Inl err
          \<or> (\<exists>sstr. fst (SigningString js t) = Inr sstr \<and> Sign m sstr k = Inl err))
    \<and> fst (SignedString js (t\<lparr>Claims := CustomClaims x v\<rparr>) k)
        = fst (SignedString js (t\<lparr>Claims := CustomClaims x v'\<rparr>) k)"
proof (intro conjI impI)
  assume "Marshal_map js (Header t) = Inr hb" "json_Marshal_claims js (Claims t) = Inr cb"
    "Sign m (EncodeSegment hb @ ''.'' @ EncodeSegment cb) k = Inr sig"
  with assms show "\<exists>out. fst (SignedString js t k) = Inr out"
    by (simp add: SignedString_def SigningString_def Let_def)
next
  assume "fst (SignedString js t k) = Inl err"
  with assms show "Marshal_map js (Header t) = Inl err
          \<or> json_Marshal_claims js (Claims t) = Inl err
          \<or> (\<exists>sstr. fst (SigningString js t) = Inr sstr \<and> Sign m sstr k = Inl err)"
    by (auto simp: SignedString_def SigningString_def Let_def split: sum.splits)
next
  show "fst (SignedString js (t\<lparr>Claims := CustomClaims x v\<rparr>) k)
        = fst (SignedString js (t\<lparr>Claims := CustomClaims x v'\<rparr>) k)"
    by (simp add: SignedString_def SigningString_def json_Marshal_claims_def Let_def
          split: sum.splits option.splits)
qed

theorem SignedString_no_claims_validation_witness:
  "Method (NewWithClaims example_method expired_claims) = Some example_method
   \<and> Claims_Valid expired_claims 1000 = Some (ClaimsInvalidError [''token is expired''])
   \<and> Marshal_map example_json (Header (NewWithClaims example_method expired_claims))
       = Inr [0x7B, 0x7D]
   \<and> json_Marshal_claims example_json (Claims (NewWithClaims example_method expired_claims))
       = Inr [0x7B, 0x7D]
   \<and> Sign example_method ''e30.e30'' ''secret'' = Inr ''c2ln''
   \<and> (\<exists>out. fst (SignedString example_json (NewWithClaims example_method expired_claims) ''secret'')
              = Inr out)
   \<and> fst (SignedString example_json (NewWithClaims example_method expired_claims) ''wrong'')
       = Inl SignError
   \<and> (\<exists>sstr. fst (SigningString example_json (NewWithClaims example_method expired_claims)) = Inr sstr
          \<and> Sign example_method sstr ''wrong'' = Inl SignError)"
proof -
  let ?t = "NewWithClaims example_method expired_claims"
  have v: "Claims_Valid expired_claims 1000 = Some (ClaimsInvalidError [''token is expired''])"
    by (simp add: Claims_Valid_def expired_claims_def MapClaims_Valid_def
          MapClaims_violations_def numeric_claim_def)
  have 1: "Method ?t = Some example_method" by (simp add: NewWithClaims_def)
  have 2: "Marshal_map example_json (Header ?t) = Inr [0x7B, 0x7D]" by (simp add: example_json_def)
  have 3: "json_Marshal_claims example_json (Claims ?t) = Inr [0x7B, 0x7D]"
    by (simp add: example_json_def json_Marshal_claims_def NewWithClaims_def expired_claims_def)
  have 4: "Sign example_method ''e30.e30'' ''secret'' = Inr ''c2ln''"
    by (simp add: example_method_def)
  have bad: "fst (SignedString example_json ?t ''wrong'') = Inl SignError"
    by (simp add: SignedString_def SigningString_def NewWithClaims_def example_json_def
          example_method_def expired_claims_def json_Marshal_claims_def example_segment)
  have ok: "\<exists>out. fst (SignedString example_json ?t ''secret'') = Inr out"
    using SignedString_no_claims_validation[OF 1, where js = example_json and hb = "[0x7B, 0x7D]"
        and cb = "[0x7B, 0x7D]" and k = "''secret''" and sig = "''c2ln''" and err = SignError
        and x = "()" and v = "\<lambda>x now. None" and v' = "\<lambda>x now. None"] 2 3 4
    by (simp add: example_segment)
  have src: "\<exists>sstr. fst (SigningString example_json ?t) = Inr sstr
          \<and> Sign example_method sstr ''wrong'' = Inl SignError"
    using SignedString_no_claims_validation[OF 1, where js = example_json and hb = "[0x7B, 0x7D]"
        and cb = "[0x7B, 0x7D]" and k = "''wrong''" and sig = "''c2ln''" and err = SignError
        and x = "()" and v = "\<lambda>x now. None" and v' = "\<lambda>x now. None"] 2 3 bad
    by simp
  from v 1 2 3 4 bad ok src show ?thesis by simp
qed

text \<open>
  C9. Neither \<open>SigningString\<close> nor \<open>SignedString\<close> changes the token: after the call
  it is the token it was before, so all six fields are unchanged, \<open>Signature\<close> and
  \<open>Valid\<close> among them.
\<close>

theorem signing_leaves_token_unchanged:
  "snd (SigningString js t) = t \<and> snd (SignedString js t k) = t
   \<and> Signature (snd (SignedString js t k)) = Signature t
   \<and> Valid (snd (SignedString js t k)) = Valid t"
proof -
  have a: "snd (SigningString js t) = t"
    by (simp add: SigningString_def Let_def split: sum.splits)
  have b: "snd (SignedString js t k) = t"
    using a by (cases "SigningString js t")
      (auto simp: SignedString_def split: sum.splits option.splits)
  from a b show ?thesis by simp
qed

theorem signing_leaves_token_unchanged_witness:
  "snd (SigningString example_json (NewWithClaims example_method expired_claims))
     = NewWithClaims example_method expired_claims
   \<and> snd (SignedString example_json (NewWithClaims example_method expired_claims) ''secret'')
     = NewWithClaims example_method expired_claims
   \<and> Signature (snd (SignedString example_json (NewWithClaims example_method expired_claims) ''secret'')) = []
   \<and> \<not> Valid (snd (SignedString example_json (NewWithClaims example_method expired_claims) ''secret''))"
  using signing_leaves_token_unchanged[of example_json
      "NewWithClaims example_method expired_claims" "''secret''"]
  by (simp add: NewWithClaims_def)

text \<open>
  C10. \<open>New m\<close> is \<open>NewWithClaims m\<close> applied to the empty \<open>MapClaims\<close>: the same token,
  so the same header, claims and method, and the same result of \<open>SignedString\<close> for the
  same key.
\<close>

theorem New_is_NewWithClaims_empty:
  fixes m :: "'k SigningMethod" and js :: "'x json_lib"
  defines "t \<equiv> (New m :: ('k, 'x) Token)"
  shows "t = NewWithClaims m (MapClaims Map.empty)
   \<and> Header t = Header (NewWithClaims m (MapClaims Map.empty) :: ('k, 'x) Token)
   \<and> Claims t = MapClaims Map.empty
   \<and> Method t = Some m
   \<and> SignedString js t k = SignedString js (NewWithClaims m (MapClaims Map.empty)) k"
  by (simp add: t_def New_def NewWithClaims_def)

theorem New_is_NewWithClaims_empty_witness:
  "(New example_method :: (string, unit) Token) = NewWithClaims example_method (MapClaims Map.empty)
   \<and> fst (SignedString example_json (New example_method) ''secret'') = Inr ''e30.e30.c2ln''
   \<and> fst (SignedString example_json (NewWithClaims example_method (MapClaims Map.empty)) ''secret'')
       = Inr ''e30.e30.c2ln''"
proof -
  have "fst (SignedString example_json (NewWithClaims example_method (MapClaims Map.empty)) ''secret'')
       = Inr ''e30.e30.c2ln''"
    by (simp add: SignedString_def SigningString_def NewWithClaims_def example_json_def
          example_method_def json_Marshal_claims_def example_segment)
  with New_is_NewWithClaims_empty[of example_method example_json "''secret''"]
  show ?thesis by simp
qed

text \<open>
  C8. When the extractor returns an error, \<open>ParseFromRequest\<close> returns no token and
  exactly that error, and the only call it has made is the one of \<open>ExtractToken\<close>:
  neither the parser nor the key function is invoked. The options are closures over a
  struct with private fields, so they are taken to leave its \<open>extractor\<close> field alone,
  as \<open>WithClaims\<close> and \<open>WithParser\<close> do.
\<close>

theorem ParseFromRequest_extract_error:
  assumes "ex rq = Inl err"
    and "\<forall>option\<in>set options. \<forall>p. extractor (option p) = extractor p"
  shows "fst (ParseFromRequest e rq ex keyFunc options) = (None, Some err)
    \<and> snd (ParseFromRequest e rq ex keyFunc options) = [ExtractToken_call]
    \<and> ParseWithClaims_call \<notin> set (snd (ParseFromRequest e rq ex keyFunc options))
    \<and> Keyfunc_call \<notin> set (snd (ParseFromRequest e rq ex keyFunc options))"
proof -
  let ?p0 = "\<lparr>req = rq, extractor = ex, claims = None, parser = None\<rparr>"
  have "extractor (fold (\<lambda>option p. option p) options ?p0) = ex"
    using fold_options_extractor[OF assms(2), of ?p0] by simp
  then have "ParseFromRequest e rq ex keyFunc options = ((None, Some err), [ExtractToken_call])"
    using assms(1) by (simp add: ParseFromRequest_def Let_def)
  then show ?thesis by simp
qed

theorem ParseFromRequest_extract_error_witness:
  "failing_extractor ''GET /'' = Inl (OtherError ''no token present in request'')
   \<and> fst (ParseFromRequest example_env ''GET /'' failing_extractor example_keyFunc
            [WithClaims (Some expired_claims), WithParser (Some (NewParser [WithJSONNumber]))])
       = (None, Some (OtherError ''no token present in request''))
   \<and> snd (ParseFromRequest example_env ''GET /'' failing_extractor example_keyFunc
            [WithClaims (Some expired_claims), WithParser (Some (NewParser [WithJSONNumber]))])
       = [ExtractToken_call]"
proof -
  have 1: "failing_extractor ''GET /'' = Inl (OtherError ''no token present in request'')"
    by (simp add: failing_extractor_def)
  have 2: "\<forall>option\<in>set [WithClaims (Some expired_claims), WithParser (Some (NewParser [WithJSONNumber]))].
      \<forall>p :: (string, unit) fromRequestParser. extractor (option p) = extractor p"
    by (simp add: package_options_keep_extractor)
  from ParseFromRequest_extract_error[where ex = failing_extractor and rq = "''GET /''"
      and e = example_env and keyFunc = example_keyFunc, OF 1 2] 1
  show ?thesis by simp
qed

text \<open>
  C1. With an allow-list configured, a token that gets as far as the algorithm check
  (its three segments decode and its header and claims parse) and whose header \<open>alg\<close> is
  not in the list fails with \<open>UnverifiableError\<close>. Nothing is assumed about the method
  registry, the key function or \<open>Verify\<close>: the key function is not called and the
  returned token is not marked valid, whether or not the signature would verify.
\<close>

theorem alg_outside_allow_list_unverifiable:
  assumes "ValidMethods p = Some allowed"
    and "Codec_decode (vars e) tokenString = Inr (headerBytes, payloadBytes, signatureBytes, signingInput)"
    and "Unmarshal_map (json e) False headerBytes = Inr header"
    and "json_Unmarshal_claims (json e) (UseJSONNumber p) payloadBytes cl = Inr cl'"
    and "header ''alg'' = Some (JString alg)"
    and "alg \<notin> set allowed"
  shows "snd (fst (Parser_ParseWithClaims e p tokenString cl keyFunc)) = Some (UnverifiableError None)
    \<and> snd (Parser_ParseWithClaims e p tokenString cl keyFunc) = []
    \<and> (\<forall>t. fst (fst (Parser_ParseWithClaims e p tokenString cl keyFunc)) = Some t \<longrightarrow> \<not> Valid t)"
  using assms by (simp add: Parser_ParseWithClaims_def Let_def)

theorem alg_outside_allow_list_unverifiable_witness:
  "ValidMethods (NewParser [WithValidMethods (Some [''RS256''])]) = Some [''RS256'']
   \<and> Verify example_method ''e30.e30'' [0x73, 0x69, 0x67] ''secret'' = None
   \<and> fst (Parse example_env example_token example_keyFunc [])
       = (Some \<lparr>Raw = example_token, Method = Some example_method,
                 Header = [''alg'' \<mapsto> JString ''HS256''],
                 Claims = MapClaims [''alg'' \<mapsto> JString ''HS256''], Signature = ''c2ln'',
                 Valid = True\<rparr>, None)
   \<and> snd (fst (Parse example_env example_token example_keyFunc [WithValidMethods (Some [''RS256''])]))
       = Some (UnverifiableError None)"
proof -
  let ?p = "NewParser [WithValidMethods (Some [''RS256''])]"
  have 1: "ValidMethods ?p = Some [''RS256'']"
    by (simp add: NewParser_def WithValidMethods_def)
  have 2: "Codec_decode (vars example_env) example_token
      = Inr ([0x7B, 0x7D], [0x7B, 0x7D], [0x73, 0x69, 0x67], ''e30.e30'')"
    by code_simp
  have 3: "Unmarshal_map (json example_env) False [0x7B, 0x7D] = Inr [''alg'' \<mapsto> JString ''HS256'']"
    by (simp add: example_env_def example_json_def)
  have 4: "json_Unmarshal_claims (json example_env) (UseJSONNumber ?p) [0x7B, 0x7D] (MapClaims Map.empty)
      = Inr (MapClaims [''alg'' \<mapsto> JString ''HS256''])"
    by (simp add: json_Unmarshal_claims_def example_env_def example_json_def)
  have 5: "[''alg'' \<mapsto> JString ''HS256''] ''alg'' = Some (JString ''HS256'')" by simp
  have 6: "''HS256'' \<notin> set [''RS256'']" by simp
  have v: "Verify example_method ''e30.e30'' [0x73, 0x69, 0x67] ''secret'' = None"
    by (simp add: example_method_def)
  have ok: "fst (Parse example_env example_token example_keyFunc [])
       = (Some \<lparr>Raw = example_token, Method = Some example_method,
                 Header = [''alg'' \<mapsto> JString ''HS256''],
                 Claims = MapClaims [''alg'' \<mapsto> JString ''HS256''], Signature = ''c2ln'',
                 Valid = True\<rparr>, None)"
    using 2 3
    by (simp add: Parse_def Parser_Parse_def Parser_ParseWithClaims_def NewParser_def json_Unmarshal_claims_def
          example_env_def example_json_def example_method_def example_keyFunc_def
          Claims_Valid_def MapClaims_Valid_def MapClaims_violations_def numeric_claim_def sig_segment)
  from alg_outside_allow_list_unverifiable[OF 1 2 3 4 5 6, of example_keyFunc] 1 v ok
  show ?thesis by (simp add: Parse_def Parser_Parse_def)
qed

end
